theory Spec2Isabelle
  imports Main
begin

section \<open>Python values and exceptions\<close>

text \<open>
  The module \<open>eachtools.py\<close> wraps arbitrary Python collections. The embedding fixes a
  universe of Python values: \<open>None\<close>, booleans, integers, strings, slice objects, tuples,
  lists, \<open>collections.deque\<close> (a sized, iterable, integer-indexable collection without
  slicing), dicts (association lists in insertion order), sets, and each-containers
  (class, \<open>whole\<close>, \<open>_each_nested\<close>). Exceptions are values of type \<open>error\<close>;
  \<open>Unmodelled\<close> marks behaviour of Python that the embedding does not determine.
\<close>

datatype error = ValueError | TypeError | KeyError | IndexError | AttributeError
  | RuntimeError | RecursionError | NotImplementedError | Unmodelled

text \<open>\<open>_each_nested\<close>: the sentinel \<open>next\<close>, an integer, or \<open>float('inf')\<close>.\<close>

datatype nesting = Next | Level int | Unlimited

datatype cls = EachContainer | EachMapping | EachSet

datatype val = VNone | VBool bool | VInt int | VStr string
  | VSlice val val val
  | VTuple "val list" | VList "val list" | VDeque "val list"
  | VDict "(val \<times> val) list" | VSet "val list"
  | VEach cls val nesting

text \<open>A lazily consumed iterator: the items it yields, ending at the first exception raised.\<close>

type_synonym stream = "(error + val) list"

definition ebind :: "error + 'a \<Rightarrow> ('a \<Rightarrow> error + 'b) \<Rightarrow> error + 'b" where
  "ebind m f = (case m of Inl e \<Rightarrow> Inl e | Inr x \<Rightarrow> f x)"

text \<open>\<open>list(it)\<close>: consume an iterator; the first exception propagates.\<close>

fun drain :: "(error + 'a) list \<Rightarrow> error + 'a list" where
  "drain [] = Inr []"
| "drain (Inl e # _) = Inl e"
| "drain (Inr v # rest) = (case drain rest of Inl e \<Rightarrow> Inl e | Inr vs \<Rightarrow> Inr (v # vs))"

text \<open>Evaluate calls left to right; the first exception propagates.\<close>

fun emap :: "('a \<Rightarrow> error + 'b) \<Rightarrow> 'a list \<Rightarrow> error + 'b list" where
  "emap f [] = Inr []"
| "emap f (x # xs) =
     (case f x of Inl e \<Rightarrow> Inl e
      | Inr y \<Rightarrow> (case emap f xs of Inl e \<Rightarrow> Inl e | Inr ys \<Rightarrow> Inr (y # ys)))"

text \<open>One iterator followed by another; an exception ends the iteration.\<close>

fun seq :: "stream \<Rightarrow> stream \<Rightarrow> stream" where
  "seq [] t = t"
| "seq (Inl e # _) t = [Inl e]"
| "seq (Inr v # s) t = Inr v # seq s t"

fun is_str :: "val \<Rightarrow> bool" where
  "is_str (VStr _) = True"
| "is_str _ = False"

fun is_each :: "val \<Rightarrow> bool" where
  "is_each (VEach _ _ _) = True"
| "is_each _ = False"

text \<open>\<open>x is True or x is False\<close>.\<close>

fun is_bool :: "val \<Rightarrow> bool" where
  "is_bool (VBool _) = True"
| "is_bool _ = False"

text \<open>\<open>isinstance(v, Iterable)\<close>; in this universe the same values are \<open>Sized\<close>.\<close>

fun is_iterable :: "val \<Rightarrow> bool" where
  "is_iterable (VStr _) = True"
| "is_iterable (VTuple _) = True"
| "is_iterable (VList _) = True"
| "is_iterable (VDeque _) = True"
| "is_iterable (VDict _) = True"
| "is_iterable (VSet _) = True"
| "is_iterable (VEach _ _ _) = True"
| "is_iterable _ = False"

text \<open>\<open>isinstance(v, Mapping)\<close>: dicts, and the classes that inherit \<open>MutableMapping\<close>.\<close>

fun is_mapping :: "val \<Rightarrow> bool" where
  "is_mapping (VDict _) = True"
| "is_mapping (VEach EachMapping _ _) = True"
| "is_mapping (VEach EachSet _ _) = True"
| "is_mapping _ = False"

text \<open>\<open>len(v)\<close>; \<open>EachContainer.__len__\<close> is \<open>len(self.whole)\<close>.\<close>

fun py_len :: "val \<Rightarrow> error + nat" where
  "py_len (VStr s) = Inr (length s)"
| "py_len (VTuple xs) = Inr (length xs)"
| "py_len (VList xs) = Inr (length xs)"
| "py_len (VDeque xs) = Inr (length xs)"
| "py_len (VDict kvs) = Inr (length kvs)"
| "py_len (VSet xs) = Inr (length xs)"
| "py_len (VEach c w n) = py_len w"
| "py_len _ = Inl TypeError"

text \<open>The items a built-in collection yields when iterated (a dict yields its keys).\<close>

fun builtin_iter :: "val \<Rightarrow> val list option" where
  "builtin_iter (VStr s) = Some (map (\<lambda>c. VStr [c]) s)"
| "builtin_iter (VTuple xs) = Some xs"
| "builtin_iter (VList xs) = Some xs"
| "builtin_iter (VDeque xs) = Some xs"
| "builtin_iter (VDict kvs) = Some (map fst kvs)"
| "builtin_iter (VSet xs) = Some xs"
| "builtin_iter _ = None"

section \<open>The each factory and iteration of each-containers\<close>

text \<open>\<open>self._each_nested is next or self._each_nested > 1\<close>, and the \<open>new_nested\<close> of
  \<open>EachContainer.values\<close>.\<close>

fun nested_gt1 :: "nesting \<Rightarrow> bool" where
  "nested_gt1 Next = True"
| "nested_gt1 (Level k) = (k > 1)"
| "nested_gt1 Unlimited = True"

fun new_nested :: "nesting \<Rightarrow> nesting" where
  "new_nested Next = Next"
| "new_nested (Level k) = Level (k - 1)"
| "new_nested Unlimited = Unlimited"

text \<open>\<open>max(nested, source._each_nested)\<close>: comparing with the sentinel \<open>next\<close> is a
  \<open>TypeError\<close>.\<close>

fun nested_max :: "nesting \<Rightarrow> nesting \<Rightarrow> error + nesting" where
  "nested_max (Level a) (Level b) = Inr (Level (if b > a then b else a))"
| "nested_max (Level a) Unlimited = Inr Unlimited"
| "nested_max Unlimited (Level b) = Inr Unlimited"
| "nested_max Unlimited Unlimited = Inr Unlimited"
| "nested_max _ _ = Inl TypeError"

text \<open>
  \<open>each(member, nested=nested, enlist=enlist)\<close> with one positional argument (lines 401-424);
  \<open>nested\<close> is already one of \<open>next\<close>, an integer or infinity.
\<close>

definition each :: "val \<Rightarrow> nesting \<Rightarrow> bool \<Rightarrow> error + val" where
  "each m nested enlist =
     (if \<not> is_str m then
        (if is_iterable m then
           ebind (case m of
                    VEach c w n0 \<Rightarrow>
                      (if nested \<noteq> Next then ebind (nested_max nested n0) (\<lambda>n'. Inr (w, n'))
                       else Inr (w, nested))
                  | _ \<Rightarrow> Inr (m, if nested = Next then Level 1 else nested))
             (\<lambda>(source, nested').
                case source of
                  VSet xs \<Rightarrow> Inr (VEach EachSet source nested')
                | _ \<Rightarrow>
                   (if is_mapping source then Inr (VEach EachMapping source nested')
                    else if \<not> is_iterable source
                    then Inl (if enlist then TypeError else NotImplementedError)
                    else Inr (VEach EachContainer source nested')))
         else if \<not> enlist then Inr m
         else Inr (VEach EachContainer (VList [m]) (if nested = Next then Level 1 else nested)))
      else Inr (VEach EachContainer (VList [m]) (if nested = Next then Level 1 else nested)))"

text \<open>
  \<open>E.values()\<close>, by class (lines 574-584, 1188-1190, 1257-1258). \<open>itr\<close> is Python's
  \<open>iter\<close>. The keyed classes are modelled over a dict and a set respectively.
\<close>

fun each_values :: "(val \<Rightarrow> error + stream) \<Rightarrow> val \<Rightarrow> error + stream" where
  "each_values itr (VEach EachContainer w n) =
     (case itr w of
        Inl e \<Rightarrow> Inl e
      | Inr s \<Rightarrow>
          Inr (if nested_gt1 n
               then map (\<lambda>r. case r of Inl e \<Rightarrow> Inl e | Inr i \<Rightarrow> each i (new_nested n) False) s
               else s))"
| "each_values itr (VEach EachMapping (VDict kvs) n) = Inr (map (\<lambda>kv. Inr (snd kv)) kvs)"
| "each_values itr (VEach EachSet (VSet xs) n) = Inr (map Inr xs)"
| "each_values itr (VEach _ _ _) = Inl Unmodelled"
| "each_values itr _ = Inl AttributeError"

text \<open>\<open>EachContainer.__iter__\<close> (lines 586-592): nested each-containers are flattened.\<close>

fun flatten :: "(val \<Rightarrow> error + stream) \<Rightarrow> stream \<Rightarrow> stream" where
  "flatten itr [] = []"
| "flatten itr (Inl e # _) = [Inl e]"
| "flatten itr (Inr i # rest) =
     (if is_each i
      then (case itr i of Inl e \<Rightarrow> [Inl e] | Inr t \<Rightarrow> seq t (flatten itr rest))
      else Inr i # flatten itr rest)"

definition each_iter :: "(val \<Rightarrow> error + stream) \<Rightarrow> val \<Rightarrow> stream" where
  "each_iter itr E = (case each_values itr E of Inl e \<Rightarrow> [Inl e] | Inr s \<Rightarrow> flatten itr s)"

text \<open>
  \<open>iter(v)\<close> with \<open>k\<close> nested calls of \<open>EachContainer.__iter__\<close> left before Python's
  recursion limit (\<open>each(['a'], nested=True)\<close> recurses without end).
\<close>

primrec py_iter :: "nat \<Rightarrow> val \<Rightarrow> error + stream" where
  "py_iter 0 v =
     (if is_each v then Inr [Inl RecursionError]
      else (case builtin_iter v of None \<Rightarrow> Inl TypeError | Some xs \<Rightarrow> Inr (map Inr xs)))"
| "py_iter (Suc k) v =
     (if is_each v then Inr (each_iter (py_iter k) v)
      else (case builtin_iter v of None \<Rightarrow> Inl TypeError | Some xs \<Rightarrow> Inr (map Inr xs)))"

section \<open>Subscription of built-in collections\<close>

text \<open>An integer index: \<open>bool\<close> is a subclass of \<open>int\<close>.\<close>

fun as_index :: "val \<Rightarrow> int option" where
  "as_index (VInt i) = Some i"
| "as_index (VBool b) = Some (if b then 1 else 0)"
| "as_index _ = None"

text \<open>Keys are compared with \<open>==\<close>: \<open>True == 1\<close>, tuples elementwise.\<close>

fun py_key :: "val \<Rightarrow> val" where
  "py_key (VBool b) = VInt (if b then 1 else 0)"
| "py_key (VTuple xs) = VTuple (map py_key xs)"
| "py_key v = v"

fun hashable :: "val \<Rightarrow> bool" where
  "hashable VNone = True"
| "hashable (VBool _) = True"
| "hashable (VInt _) = True"
| "hashable (VStr _) = True"
| "hashable (VTuple xs) = (\<forall>x \<in> set xs. hashable x)"
| "hashable _ = False"

text \<open>\<open>xs[i]\<close> on a list, tuple or deque: negative indices count from the end.\<close>

definition seq_index :: "val list \<Rightarrow> int \<Rightarrow> error + val" where
  "seq_index xs i =
     (if 0 \<le> i \<and> i < int (length xs) then Inr (xs ! nat i)
      else if - int (length xs) \<le> i \<and> i < 0 then Inr (xs ! nat (i + int (length xs)))
      else Inl IndexError)"

text \<open>
  The positions a slice selects in a sequence of length \<open>n\<close> (CPython's
  \<open>PySlice_Unpack\<close> and \<open>PySlice_AdjustIndices\<close>).
\<close>

definition slice_bound :: "int \<Rightarrow> int \<Rightarrow> int \<Rightarrow> int" where
  "slice_bound n step b =
     (if b < 0 then (if b + n < 0 then (if step < 0 then - 1 else 0) else b + n)
      else if b \<ge> n then (if step < 0 then n - 1 else n)
      else b)"

definition slice_adjust :: "nat \<Rightarrow> val \<Rightarrow> val \<Rightarrow> val \<Rightarrow> error + int \<times> int \<times> int" where
  "slice_adjust len start stop step =
     (let n = int len in
      if step \<noteq> VNone \<and> as_index step = None then Inl TypeError
      else if as_index step = Some 0 then Inl ValueError
      else if start \<noteq> VNone \<and> as_index start = None then Inl TypeError
      else if stop \<noteq> VNone \<and> as_index stop = None then Inl TypeError
      else
        (let st = (case as_index step of None \<Rightarrow> 1 | Some s \<Rightarrow> s);
             lo = (case as_index start of
                     None \<Rightarrow> (if st < 0 then n - 1 else 0)
                   | Some b \<Rightarrow> slice_bound n st b);
             hi = (case as_index stop of
                     None \<Rightarrow> (if st < 0 then - 1 else n)
                   | Some b \<Rightarrow> slice_bound n st b)
         in Inr (lo, hi, st)))"

definition slice_indices :: "nat \<Rightarrow> val \<Rightarrow> val \<Rightarrow> val \<Rightarrow> error + nat list" where
  "slice_indices len start stop step =
     ebind (slice_adjust len start stop step) (\<lambda>(lo, hi, st).
       let count = (if st > 0 then (if lo < hi then (hi - lo - 1) div st + 1 else 0)
                    else (if hi < lo then (lo - hi - 1) div (- st) + 1 else 0))
       in Inr (map (\<lambda>j. nat (lo + int j * st)) [0..<nat count]))"

definition dict_getitem :: "(val \<times> val) list \<Rightarrow> val \<Rightarrow> error + val" where
  "dict_getitem kvs k =
     (case k of
        VEach _ _ _ \<Rightarrow> Inl Unmodelled
      | VSlice _ _ _ \<Rightarrow> Inl Unmodelled
      | _ \<Rightarrow>
         (if \<not> hashable k then Inl TypeError
          else (case map_of (map (\<lambda>kv. (py_key (fst kv), snd kv)) kvs) (py_key k) of
                  None \<Rightarrow> Inl KeyError
                | Some v \<Rightarrow> Inr v)))"

text \<open>\<open>v[i]\<close> for a built-in \<open>v\<close>.\<close>

definition builtin_getitem :: "val \<Rightarrow> val \<Rightarrow> error + val" where
  "builtin_getitem v i =
     (case v of
        VList xs \<Rightarrow>
          (case i of
             VSlice a b c \<Rightarrow>
               ebind (slice_indices (length xs) a b c) (\<lambda>js. Inr (VList (map (\<lambda>j. xs ! j) js)))
           | _ \<Rightarrow> (case as_index i of None \<Rightarrow> Inl TypeError | Some j \<Rightarrow> seq_index xs j))
      | VTuple xs \<Rightarrow>
          (case i of
             VSlice a b c \<Rightarrow>
               ebind (slice_indices (length xs) a b c) (\<lambda>js. Inr (VTuple (map (\<lambda>j. xs ! j) js)))
           | _ \<Rightarrow> (case as_index i of None \<Rightarrow> Inl TypeError | Some j \<Rightarrow> seq_index xs j))
      | VStr s \<Rightarrow>
          (case i of
             VSlice a b c \<Rightarrow>
               ebind (slice_indices (length s) a b c) (\<lambda>js. Inr (VStr (map (\<lambda>j. s ! j) js)))
           | _ \<Rightarrow> (case as_index i of
                     None \<Rightarrow> Inl TypeError
                   | Some j \<Rightarrow> seq_index (map (\<lambda>c. VStr [c]) s) j))
      | VDeque xs \<Rightarrow> (case as_index i of None \<Rightarrow> Inl TypeError | Some j \<Rightarrow> seq_index xs j)
      | VDict kvs \<Rightarrow> dict_getitem kvs i
      | VEach _ _ _ \<Rightarrow> Inl Unmodelled
      | _ \<Rightarrow> Inl TypeError)"

text \<open>
  \<open>a < b\<close> and \<open>a <= b\<close> on keys: numbers and strings are modelled; between other scalars
  Python raises \<open>TypeError\<close>.
\<close>

fun str_lt :: "string \<Rightarrow> string \<Rightarrow> bool" where
  "str_lt [] [] = False"
| "str_lt [] (b # bs) = True"
| "str_lt (a # as) [] = False"
| "str_lt (a # as) (b # bs) =
     ((of_char a :: nat) < of_char b \<or> (a = b \<and> str_lt as bs))"

fun is_scalar :: "val \<Rightarrow> bool" where
  "is_scalar VNone = True"
| "is_scalar (VBool _) = True"
| "is_scalar (VInt _) = True"
| "is_scalar (VStr _) = True"
| "is_scalar _ = False"

definition py_lt :: "val \<Rightarrow> val \<Rightarrow> error + bool" where
  "py_lt a b =
     (case (as_index a, as_index b) of
        (Some x, Some y) \<Rightarrow> Inr (x < y)
      | _ \<Rightarrow>
         (case (a, b) of
            (VStr s, VStr t) \<Rightarrow> Inr (str_lt s t)
          | _ \<Rightarrow> if is_scalar a \<and> is_scalar b then Inl TypeError else Inl Unmodelled))"

definition py_le :: "val \<Rightarrow> val \<Rightarrow> error + bool" where
  "py_le a b =
     (case (as_index a, as_index b) of
        (Some x, Some y) \<Rightarrow> Inr (x \<le> y)
      | _ \<Rightarrow>
         (case (a, b) of
            (VStr s, VStr t) \<Rightarrow> Inr (s = t \<or> str_lt s t)
          | _ \<Rightarrow> if is_scalar a \<and> is_scalar b then Inl TypeError else Inl Unmodelled))"

section \<open>Compound indexing: \<open>EachContainer.__getitem__\<close>\<close>

text \<open>
  The domain computed by \<open>__getitem__\<close>: a single member, a collection, or a generator.
\<close>

datatype domain = Singular val | Coll val | Gen stream

text \<open>
  The constructors (lines 518-521, 1130-1131, 1244-1248): an unsized \<open>whole\<close> is spieled
  into a list; \<open>EachSet\<close> replaces a mapping by its keys.
\<close>

definition new_each :: "cls \<Rightarrow> domain \<Rightarrow> nesting \<Rightarrow> error + val" where
  "new_each c d nested =
     (case d of
        Gen s \<Rightarrow> ebind (drain s) (\<lambda>vs. Inr (VEach c (VList vs) nested))
      | Coll v \<Rightarrow>
          (if c = EachSet \<and> is_mapping v
           then (case v of VDict kvs \<Rightarrow> Inr (VEach c (VSet (map fst kvs)) nested)
                 | _ \<Rightarrow> Inl Unmodelled)
           else if is_iterable v then Inr (VEach c v nested)
           else Inl TypeError)
      | Singular v \<Rightarrow>
          (if is_iterable v then Inr (VEach c v nested) else Inl TypeError))"

text \<open>The default \<open>nested\<close> of each constructor.\<close>

fun default_nested :: "cls \<Rightarrow> nesting" where
  "default_nested EachSet = Next"
| "default_nested _ = Level 1"

text \<open>\<open>m.items()\<close> and \<open>m.values()\<close> of a dict, an \<open>EachMapping\<close> or an \<open>EachSet\<close>, as the
  pairs and values they yield when iterated (lines 1188-1196, 1257-1261).\<close>

fun mapping_items :: "val \<Rightarrow> error + (val \<times> val) list" where
  "mapping_items (VDict kvs) = Inr kvs"
| "mapping_items (VEach EachMapping (VDict kvs) n) = Inr kvs"
| "mapping_items (VEach EachSet (VSet xs) n) = Inr (map (\<lambda>x. (x, x)) xs)"
| "mapping_items _ = Inl Unmodelled"

fun mapping_values :: "val \<Rightarrow> error + val list" where
  "mapping_values (VDict kvs) = Inr (map snd kvs)"
| "mapping_values (VEach EachMapping (VDict kvs) n) = Inr (map snd kvs)"
| "mapping_values (VEach EachSet (VSet xs) n) = Inr xs"
| "mapping_values _ = Inl Unmodelled"

text \<open>\<open>itertools.islice(iterable, start, stop, step)\<close>: every invalid argument is a
  \<open>ValueError\<close>, raised before the iterable is touched.\<close>

definition maxsize :: int where
  "maxsize = 2 ^ 63 - 1"

definition islice_arg :: "val \<Rightarrow> int \<Rightarrow> int option \<Rightarrow> (int option) option" where
  "islice_arg a lo dflt =
     (if a = VNone then Some dflt
      else (case as_index a of
              None \<Rightarrow> None
            | Some i \<Rightarrow> if lo \<le> i \<and> i \<le> maxsize then Some (Some i) else None))"

fun islice_pick :: "nat \<Rightarrow> nat \<Rightarrow> nat \<Rightarrow> stream \<Rightarrow> stream" where
  "islice_pick p start step [] = []"
| "islice_pick p start step (Inl e # _) = [Inl e]"
| "islice_pick p start step (Inr v # rest) =
     (if p \<ge> start \<and> (p - start) mod step = 0
      then Inr v # islice_pick (Suc p) start step rest
      else islice_pick (Suc p) start step rest)"

definition islice ::
  "(val \<Rightarrow> error + stream) \<Rightarrow> val \<Rightarrow> val \<Rightarrow> val \<Rightarrow> val \<Rightarrow> error + stream" where
  "islice itr iterable start stop step =
     (case (islice_arg start 0 (Some 0), islice_arg stop 0 None, islice_arg step 1 (Some 1)) of
        (Some (Some a), Some b, Some (Some c)) \<Rightarrow>
           ebind (itr iterable)
             (\<lambda>s. Inr (islice_pick 0 (nat a) (nat c)
                         (case b of None \<Rightarrow> s | Some t \<Rightarrow> take (nat t) s)))
      | _ \<Rightarrow> Inl ValueError)"

text \<open>\<open>x < 0\<close> for a slice bound \<open>x\<close>.\<close>

definition lt_zero :: "val \<Rightarrow> error + bool" where
  "lt_zero x =
     (case as_index x of
        Some i \<Rightarrow> Inr (i < 0)
      | None \<Rightarrow> (if is_each x then Inl Unmodelled else Inl TypeError))"

text \<open>
  Lines 706-709: the approximation of a slice of a positional container whose \<open>whole\<close>
  does not slice itself.
\<close>

definition approx_slice ::
  "(val \<Rightarrow> error + stream) \<Rightarrow> val \<Rightarrow> val \<Rightarrow> val \<Rightarrow> val \<Rightarrow> error + stream" where
  "approx_slice itr whole start stop step =
     ebind (lt_zero start) (\<lambda>neg_start.
     ebind (if neg_start
            then ebind (py_len whole) (\<lambda>n. Inr (VInt (the (as_index start) + int n)))
            else Inr start) (\<lambda>start1.
     ebind (lt_zero stop) (\<lambda>neg_stop.
     ebind (if neg_stop
            then ebind (py_len whole) (\<lambda>n. Inr (VInt (the (as_index start1) + int n)))
            else Inr start1) (\<lambda>start2.
     islice itr whole start2 stop step))))"

text \<open>\<open>(start is None or start <= key) and (stop is None or key < stop)\<close>.\<close>

definition in_key_range :: "val \<Rightarrow> val \<Rightarrow> val \<Rightarrow> error + bool" where
  "in_key_range start stop key =
     ebind (if start = VNone then Inr True else py_le start key) (\<lambda>a.
       if \<not> a then Inr False
       else if stop = VNone then Inr True
       else py_lt key stop)"

text \<open>A comprehension with a condition that may raise.\<close>

fun efilter :: "('a \<Rightarrow> error + bool) \<Rightarrow> 'a list \<Rightarrow> error + 'a list" where
  "efilter p [] = Inr []"
| "efilter p (x # xs) =
     (case p x of
        Inl e \<Rightarrow> Inl e
      | Inr b \<Rightarrow> (case efilter p xs of
                   Inl e \<Rightarrow> Inl e
                 | Inr ys \<Rightarrow> Inr (if b then x # ys else ys)))"

text \<open>A generator expression with a condition that may raise, over an iterator.\<close>

fun gfilter :: "(nat \<Rightarrow> val \<Rightarrow> error + bool) \<Rightarrow> nat \<Rightarrow> stream \<Rightarrow> stream" where
  "gfilter p i [] = []"
| "gfilter p i (Inl e # _) = [Inl e]"
| "gfilter p i (Inr v # rest) =
     (case p i v of
        Inl e \<Rightarrow> [Inl e]
      | Inr b \<Rightarrow> (if b then Inr v # gfilter p (Suc i) rest else gfilter p (Suc i) rest))"

text \<open>A generator expression applying a call that may raise to every item.\<close>

fun gmap :: "(val \<Rightarrow> error + val) \<Rightarrow> stream \<Rightarrow> stream" where
  "gmap f [] = []"
| "gmap f (Inl e # _) = [Inl e]"
| "gmap f (Inr v # rest) = (case f v of Inl e \<Rightarrow> [Inl e] | Inr y \<Rightarrow> Inr y # gmap f rest)"

text \<open>\<open>all(x is True or x is False for x in it)\<close>: stops at the first other value.\<close>

fun all_bool :: "stream \<Rightarrow> error + bool" where
  "all_bool [] = Inr True"
| "all_bool (Inl e # _) = Inl e"
| "all_bool (Inr v # rest) = (if is_bool v then all_bool rest else Inr False)"

text \<open>\<open>hasattr(type(v), '__getitem__')\<close> and \<open>hasattr(type(v), '__setitem__')\<close>.\<close>

fun has_getitem :: "val \<Rightarrow> bool" where
  "has_getitem (VStr _) = True"
| "has_getitem (VTuple _) = True"
| "has_getitem (VList _) = True"
| "has_getitem (VDeque _) = True"
| "has_getitem (VDict _) = True"
| "has_getitem (VEach _ _ _) = True"
| "has_getitem _ = False"

fun has_setitem :: "val \<Rightarrow> bool" where
  "has_setitem (VList _) = True"
| "has_setitem (VDeque _) = True"
| "has_setitem (VDict _) = True"
| "has_setitem (VEach _ _ _) = True"
| "has_setitem _ = False"

fun is_slice :: "val \<Rightarrow> bool" where
  "is_slice (VSlice _ _ _) = True"
| "is_slice _ = False"

fun the_whole :: "val \<Rightarrow> val" where
  "the_whole (VEach c w n) = w"
| "the_whole v = v"

fun the_cls :: "val \<Rightarrow> cls" where
  "the_cls (VEach c w n) = c"
| "the_cls v = EachContainer"

fun the_nested :: "val \<Rightarrow> nesting" where
  "the_nested (VEach c w n) = n"
| "the_nested v = Level 1"

text \<open>\<open>tuple(v)\<close>.\<close>

definition to_tuple :: "(val \<Rightarrow> error + stream) \<Rightarrow> val \<Rightarrow> error + val" where
  "to_tuple itr v = ebind (itr v) (\<lambda>s. ebind (drain s) (\<lambda>xs. Inr (VTuple xs)))"

text \<open>Lines 694-709: a partial slice as domain index. \<open>gi\<close> is Python's subscription
  \<open>obj[index]\<close>; the bare \<open>except\<close> catches whatever the native slicing raises.\<close>

definition slice_domain ::
  "(val \<Rightarrow> val \<Rightarrow> error + val) \<Rightarrow> (val \<Rightarrow> error + stream) \<Rightarrow> val \<Rightarrow> val
     \<Rightarrow> error + domain \<times> cls" where
  "slice_domain gi itr self domain_index =
     (case gi (the_whole self) domain_index of
        Inr d \<Rightarrow> Inr (Coll d, EachContainer)
      | Inl _ \<Rightarrow>
         (case domain_index of
            VSlice start stop step \<Rightarrow>
              (if is_mapping self
               then ebind (mapping_items self) (\<lambda>kvs.
                    ebind (efilter (\<lambda>kv. in_key_range start stop (fst kv)) kvs) (\<lambda>d.
                    Inr (Coll (VDict d), the_cls self)))
               else ebind (approx_slice itr (the_whole self) start stop step) (\<lambda>s.
                    Inr (Gen s, EachContainer)))
          | _ \<Rightarrow> Inl Unmodelled))"

text \<open>Lines 710-721: a mapping as domain index, a boolean mask or a key remapping.\<close>

definition mapping_domain ::
  "(val \<Rightarrow> val \<Rightarrow> error + val) \<Rightarrow> (val \<Rightarrow> error + stream) \<Rightarrow> val \<Rightarrow> val
     \<Rightarrow> error + domain \<times> cls" where
  "mapping_domain gi itr self domain_index =
     ebind (mapping_values domain_index) (\<lambda>vs.
       if list_all is_bool vs then
         (if is_mapping self
          then ebind (mapping_items self) (\<lambda>kvs.
               ebind (efilter (\<lambda>kv. ebind (gi domain_index (fst kv))
                                       (\<lambda>b. Inr (b = VBool True))) kvs) (\<lambda>d.
               Inr (Coll (VDict d), the_cls self)))
          else Inr (Gen (case itr (the_whole self) of
                           Inl e \<Rightarrow> [Inl e]
                         | Inr s \<Rightarrow>
                             gfilter (\<lambda>i v. ebind (gi domain_index (VInt (int i)))
                                              (\<lambda>b. Inr (b = VBool True))) 0 s),
                    EachContainer))
       else
         ebind (if has_getitem (the_whole self) then Inr (the_whole self)
                else to_tuple itr (the_whole self)) (\<lambda>whole.
         ebind (mapping_items domain_index) (\<lambda>nos.
         ebind (emap (\<lambda>no. ebind (gi whole (snd no)) (\<lambda>v. Inr (fst no, v))) nos) (\<lambda>d.
         Inr (Coll (VDict d), EachContainer)))))"

text \<open>Lines 729-734: the two forms of a sequence mask.\<close>

fun mask_dict :: "(val \<Rightarrow> val \<Rightarrow> error + val) \<Rightarrow> val \<Rightarrow> nat \<Rightarrow> stream
    \<Rightarrow> error + (val \<times> val) list" where
  "mask_dict gi whole i [] = Inr []"
| "mask_dict gi whole i (Inl e # _) = Inl e"
| "mask_dict gi whole i (Inr b # rest) =
     (if b = VBool True
      then ebind (gi whole (VInt (int i))) (\<lambda>v.
           ebind (mask_dict gi whole (Suc i) rest) (\<lambda>d. Inr ((VInt (int i), v) # d)))
      else mask_dict gi whole (Suc i) rest)"

fun zip_mask :: "stream \<Rightarrow> stream \<Rightarrow> stream" where
  "zip_mask [] bs = []"
| "zip_mask (Inl e # _) bs = [Inl e]"
| "zip_mask (Inr v # vs) [] = []"
| "zip_mask (Inr v # vs) (Inl e # _) = [Inl e]"
| "zip_mask (Inr v # vs) (Inr b # bs) =
     (if b = VBool True then Inr v # zip_mask vs bs else zip_mask vs bs)"

text \<open>Lines 722-737: a non-string iterable as domain index, a mask or an index list.\<close>

definition iterable_domain ::
  "(val \<Rightarrow> val \<Rightarrow> error + val) \<Rightarrow> (val \<Rightarrow> error + stream) \<Rightarrow> val \<Rightarrow> val
     \<Rightarrow> error + domain \<times> cls" where
  "iterable_domain gi itr self domain_index0 =
     ebind (case py_len domain_index0 of
              Inr _ \<Rightarrow> Inr domain_index0
            | Inl _ \<Rightarrow> to_tuple itr domain_index0) (\<lambda>domain_index.
     ebind (py_len domain_index) (\<lambda>m.
     ebind (py_len (the_whole self)) (\<lambda>n.
     ebind (if m = n then ebind (itr domain_index) all_bool else Inr False) (\<lambda>mask.
       if mask then
         (if is_mapping (the_whole self)
          then ebind (itr domain_index) (\<lambda>s.
               ebind (mask_dict gi (the_whole self) 0 s) (\<lambda>d.
               Inr (Coll (VDict d), EachMapping)))
          else ebind (itr (the_whole self)) (\<lambda>ws.
               ebind (itr domain_index) (\<lambda>bs.
               Inr (Gen (zip_mask ws bs), EachContainer))))
       else
         Inr (Gen (case itr domain_index of
                     Inl e \<Rightarrow> [Inl e]
                   | Inr s \<Rightarrow> gmap (gi (the_whole self)) s),
              EachContainer)))))"

text \<open>Lines 689-740: the domain and the output type.\<close>

definition getitem_domain ::
  "(val \<Rightarrow> val \<Rightarrow> error + val) \<Rightarrow> (val \<Rightarrow> error + stream) \<Rightarrow> val \<Rightarrow> val
     \<Rightarrow> error + domain \<times> cls" where
  "getitem_domain gi itr self domain_index =
     (if domain_index = VSlice VNone VNone VNone then Inr (Coll (the_whole self), EachContainer)
      else if is_slice domain_index then slice_domain gi itr self domain_index
      else if is_mapping domain_index then mapping_domain gi itr self domain_index
      else if is_iterable domain_index \<and> \<not> is_str domain_index
      then iterable_domain gi itr self domain_index
      else ebind (gi (the_whole self) domain_index) (\<lambda>d. Inr (Singular d, EachContainer)))"

text \<open>
  \<open>E[item]\<close> (lines 654-753), with the override of \<open>EachSet\<close> (lines 1268-1272) first.
  The result \<open>None\<close> stands for \<open>return self\<close>: the object \<open>E\<close> itself, not a copy.
\<close>

definition getitem_result ::
  "(val \<Rightarrow> val \<Rightarrow> error + val) \<Rightarrow> (val \<Rightarrow> error + stream) \<Rightarrow> val \<Rightarrow> val
     \<Rightarrow> error + val option" where
  "getitem_result gi itr self item =
     (if the_cls self = EachSet \<and> \<not> (is_slice item \<or> (is_iterable item \<and> \<not> is_str item))
      then (case the_whole self of
              VSet xs \<Rightarrow> if py_key item \<in> set (map py_key xs) then Inr (Some item)
                         else Inl KeyError
            | _ \<Rightarrow> Inl Unmodelled)
      else
        (let domain_index = (case item of VTuple (x # xs) \<Rightarrow> x | _ \<Rightarrow> item);
             range_indices = (case item of VTuple (x # xs) \<Rightarrow> xs | _ \<Rightarrow> [])
         in
         if domain_index = VSlice VNone VNone VNone \<and> range_indices = [] then Inr None
         else
           ebind (getitem_domain gi itr self domain_index) (\<lambda>(domain, output_type).
           ebind
            (if range_indices = [] then
               (case domain of
                  Singular d \<Rightarrow> Inr d
                | _ \<Rightarrow> new_each output_type domain (the_nested self))
             else
               (let range_index = (if length range_indices = 1 then hd range_indices
                                   else VTuple range_indices)
                in case domain of
                     Singular d \<Rightarrow> gi d range_index
                   | Coll d \<Rightarrow>
                       (if is_mapping d
                        then ebind (mapping_items d) (\<lambda>kvs.
                             ebind (emap (\<lambda>km. ebind (gi (snd km) range_index)
                                                 (\<lambda>x. Inr (fst km, x))) kvs) (\<lambda>r.
                             new_each EachMapping (Coll (VDict r)) (Level 1)))
                        else new_each output_type
                               (Gen (case itr d of
                                       Inl e \<Rightarrow> [Inl e]
                                     | Inr s \<Rightarrow> gmap (\<lambda>member. gi member range_index) s))
                               (default_nested output_type))
                   | Gen s \<Rightarrow>
                       new_each output_type (Gen (gmap (\<lambda>member. gi member range_index) s))
                         (default_nested output_type)))
            (\<lambda>v. Inr (Some v)))))"

definition each_getitem ::
  "(val \<Rightarrow> val \<Rightarrow> error + val) \<Rightarrow> (val \<Rightarrow> error + stream) \<Rightarrow> val \<Rightarrow> val \<Rightarrow> error + val" where
  "each_getitem gi itr self item =
     ebind (getitem_result gi itr self item)
       (\<lambda>r. Inr (case r of None \<Rightarrow> self | Some v \<Rightarrow> v))"

text \<open>
  \<open>v[i]\<close> by the type of \<open>v\<close>, with \<open>k\<close> nested calls of each-container methods left
  before the recursion limit.
\<close>

primrec py_getitem :: "nat \<Rightarrow> val \<Rightarrow> val \<Rightarrow> error + val" where
  "py_getitem 0 v i = (if is_each v then Inl RecursionError else builtin_getitem v i)"
| "py_getitem (Suc k) v i =
     (if is_each v then each_getitem (py_getitem k) (py_iter k) v i else builtin_getitem v i)"

section \<open>Broadcasting\<close>

text \<open>\<open>as_sized_iterable\<close> (lines 51-62).\<close>

definition as_sized_iterable :: "nat \<Rightarrow> val \<Rightarrow> error + val" where
  "as_sized_iterable k source =
     (if is_str source then Inr (VTuple [source])
      else (case py_len source of
              Inr len \<Rightarrow> Inr source
            | Inl _ \<Rightarrow> (if is_iterable source then to_tuple (py_iter k) source
                       else Inr (VTuple [source]))))"

text \<open>The indices of an alignment: \<open>range(n)\<close>, or the keys of the model.\<close>

datatype indices = Range nat | Keys "val list"

fun index_list :: "indices \<Rightarrow> val list" where
  "index_list (Range n) = map (\<lambda>i. VInt (int i)) [0..<n]"
| "index_list (Keys ks) = ks"

fun is_range :: "indices \<Rightarrow> bool" where
  "is_range (Range _) = True"
| "is_range (Keys _) = False"

text \<open>\<open>model.keys()\<close> (lines 1167-1175, 1254-1255).\<close>

fun mapping_keys :: "val \<Rightarrow> error + val list" where
  "mapping_keys (VDict kvs) = Inr (map fst kvs)"
| "mapping_keys (VEach EachMapping (VDict kvs) n) = Inr (map fst kvs)"
| "mapping_keys (VEach EachSet (VSet xs) n) = Inr xs"
| "mapping_keys _ = Inl Unmodelled"

text \<open>\<open>len(s) != 1 or isinstance(s, Mapping)\<close>: the source cannot be broadcast.\<close>

definition non_broadcastable :: "val \<Rightarrow> bool" where
  "non_broadcastable s = (py_len s \<noteq> Inr 1 \<or> is_mapping s)"

text \<open>\<open>BroadcastHandler.__init__\<close> (lines 218-236).\<close>

record handler =
  B_sources :: "val list"
  B_E :: val
  B_model :: val
  B_n :: nat
  B_indices :: indices

definition BroadcastHandler :: "nat \<Rightarrow> val list \<Rightarrow> bool \<Rightarrow> error + handler" where
  "BroadcastHandler k sources0 match_first =
     ebind (emap (as_sized_iterable k) sources0) (\<lambda>sources.
       case sources of
         [] \<Rightarrow> Inl IndexError
       | s0 # _ \<Rightarrow>
          (let model = (if match_first then s0
                        else (case find non_broadcastable sources of
                                None \<Rightarrow> s0 | Some s \<Rightarrow> s))
           in ebind (py_len model) (\<lambda>n.
              ebind (if is_mapping model \<and> list_all (\<lambda>s. py_len s = Inr 1 \<or> is_mapping s) sources
                     then ebind (mapping_keys model) (\<lambda>ks. Inr (Keys ks))
                     else Inr (Range n)) (\<lambda>ind.
              Inr \<lparr>B_sources = sources, B_E = s0, B_model = model, B_n = n,
                   B_indices = ind\<rparr>))))"

text \<open>\<open>next(iter(source))\<close> inside a generator expression: \<open>StopIteration\<close> surfaces as
  \<open>RuntimeError\<close>.\<close>

definition first_item :: "error + stream \<Rightarrow> error + val" where
  "first_item r =
     (case r of
        Inl e \<Rightarrow> Inl e
      | Inr [] \<Rightarrow> Inl RuntimeError
      | Inr (Inl e # _) \<Rightarrow> Inl e
      | Inr (Inr v # _) \<Rightarrow> Inr v)"

text \<open>
  The iterator \<open>broadcast_to_indices\<close> returns is consumed later, item by item. It is
  described by what it will read: items already determined, the generator
  \<open>(source[i] for i in indices)\<close>, or \<open>source.values()\<close> of an each-container.
  \<open>run\<close> gives the items it yields while its source does not change.
\<close>

datatype iterator = Items stream | Lookup val "val list" | Values val

fun run :: "nat \<Rightarrow> iterator \<Rightarrow> stream" where
  "run k (Items s) = s"
| "run k (Lookup source idxs) = map (\<lambda>i. py_getitem k source i) idxs"
| "run k (Values source) =
     (case each_values (py_iter k) source of Inl e \<Rightarrow> [Inl e] | Inr s \<Rightarrow> s)"

text \<open>\<open>broadcast_to_indices\<close> (lines 78-97).\<close>

definition broadcast_to_indices :: "nat \<Rightarrow> val \<Rightarrow> nat \<Rightarrow> indices \<Rightarrow> error + iterator" where
  "broadcast_to_indices k source n ind =
     (if is_mapping source then Inr (Lookup source (index_list ind))
      else
        ebind (py_len source) (\<lambda>len.
          if len = 1
          then ebind (first_item (py_iter k source)) (\<lambda>v. Inr (Items (replicate n (Inr v))))
          else if \<not> is_range ind
          then Inr (Lookup source (index_list ind))
          else if len < n then Inl ValueError
          else if is_each source
          then ebind (each_values (py_iter k) source) (\<lambda>_. Inr (Values source))
          else ebind (py_iter k source) (\<lambda>s. Inr (Items s))))"

text \<open>\<open>zip(*iterators)\<close>: the next tuple takes one item of every iterator, left to
  right; the first exhausted iterator ends the zip.\<close>

fun heads :: "stream list \<Rightarrow> (error + val list) option" where
  "heads [] = Some (Inr [])"
| "heads ([] # _) = None"
| "heads ((Inl e # _) # _) = Some (Inl e)"
| "heads ((Inr v # _) # rest) =
     (case heads rest of
        None \<Rightarrow> None
      | Some (Inl e) \<Rightarrow> Some (Inl e)
      | Some (Inr vs) \<Rightarrow> Some (Inr (v # vs)))"

primrec zip_upto :: "nat \<Rightarrow> stream list \<Rightarrow> (error + val list) list" where
  "zip_upto 0 ss = []"
| "zip_upto (Suc m) ss =
     (case heads ss of
        None \<Rightarrow> []
      | Some (Inl e) \<Rightarrow> [Inl e]
      | Some (Inr vs) \<Rightarrow> Inr vs # zip_upto m (map tl ss))"

definition zip_streams :: "stream list \<Rightarrow> (error + val list) list" where
  "zip_streams ss = (case ss of [] \<Rightarrow> [] | s # _ \<Rightarrow> zip_upto (length s) ss)"

text \<open>\<open>BroadcastHandler.__iter__\<close> (lines 261-262): the iterators of the sources, and
  the tuples their zip yields.\<close>

definition B_iterators :: "nat \<Rightarrow> handler \<Rightarrow> error + iterator list" where
  "B_iterators k B =
     emap (\<lambda>s. broadcast_to_indices k s (B_n B) (B_indices B)) (B_sources B)"

definition B_iter :: "nat \<Rightarrow> handler \<Rightarrow> error + (error + val list) list" where
  "B_iter k B = ebind (B_iterators k B) (\<lambda>its. Inr (zip_streams (map (run k) its)))"

text \<open>A dict display or comprehension: a repeated key keeps its first position and takes
  the last value.\<close>

fun dict_set :: "(val \<times> val) list \<Rightarrow> val \<Rightarrow> val \<Rightarrow> (val \<times> val) list" where
  "dict_set [] k v = [(k, v)]"
| "dict_set ((k', v') # kvs) k v =
     (if py_key k' = py_key k then (k', v) # kvs else (k', v') # dict_set kvs k v)"

definition dict_of :: "(val \<times> val) list \<Rightarrow> (val \<times> val) list" where
  "dict_of kvs = foldl (\<lambda>d kv. dict_set d (fst kv) (snd kv)) [] kvs"

text \<open>\<open>BroadcastHandler.__call__\<close> (lines 239-249): the container of the results.\<close>

definition B_call :: "handler \<Rightarrow> stream \<Rightarrow> error + val" where
  "B_call B it =
     (case B_indices B of
        Range _ \<Rightarrow>
          (if is_each (B_E B)
           then ebind (drain it) (\<lambda>vs. Inr (VEach EachContainer (VList vs) (Level 1)))
           else Inl AttributeError)
      | Keys ks \<Rightarrow>
          ebind (drain (take (length ks) it)) (\<lambda>vs.
            Inr (VEach EachMapping (VDict (dict_of (zip ks vs))) (Level 1))))"

text \<open>The generator expressions \<open>(s op o for s, o in B)\<close> and \<open>(op s for (s,) in B)\<close>.\<close>

fun gen2 :: "(val \<Rightarrow> val \<Rightarrow> error + val) \<Rightarrow> (error + val list) list \<Rightarrow> stream" where
  "gen2 f [] = []"
| "gen2 f (Inl e # _) = [Inl e]"
| "gen2 f (Inr [s, o'] # rest) =
     (case f s o' of Inl e \<Rightarrow> [Inl e] | Inr y \<Rightarrow> Inr y # gen2 f rest)"
| "gen2 f (Inr _ # _) = [Inl ValueError]"

fun gen1 :: "(val \<Rightarrow> error + val) \<Rightarrow> (error + val list) list \<Rightarrow> stream" where
  "gen1 f [] = []"
| "gen1 f (Inl e # _) = [Inl e]"
| "gen1 f (Inr [s] # rest) =
     (case f s of Inl e \<Rightarrow> [Inl e] | Inr y \<Rightarrow> Inr y # gen1 f rest)"
| "gen1 f (Inr _ # _) = [Inl ValueError]"

text \<open>
  The binary, reflected, comparison and unary operators (lines 875-1061) all have the
  shape of \<open>__add__\<close>: \<open>B = BroadcastHandler(self, other); return B(s op o for s, o in B)\<close>.
  \<open>f s o\<close> is what Python evaluates for \<open>s op o\<close> on two members.
\<close>

definition binop :: "(val \<Rightarrow> val \<Rightarrow> error + val) \<Rightarrow> nat \<Rightarrow> val \<Rightarrow> val \<Rightarrow> error + val" where
  "binop f k self other =
     ebind (BroadcastHandler k [self, other] False) (\<lambda>B.
     ebind (B_iter k B) (\<lambda>tuples.
     B_call B (gen2 f tuples)))"

definition unop :: "(val \<Rightarrow> error + val) \<Rightarrow> nat \<Rightarrow> val \<Rightarrow> error + val" where
  "unop f k self =
     ebind (BroadcastHandler k [self] False) (\<lambda>B.
     ebind (B_iter k B) (\<lambda>tuples.
     B_call B (gen1 f tuples)))"

text \<open>\<open>a + b\<close> on integers (booleans included); the other types are not modelled here.\<close>

definition int_add :: "val \<Rightarrow> val \<Rightarrow> error + val" where
  "int_add a b =
     (case (as_index a, as_index b) of
        (Some x, Some y) \<Rightarrow> Inr (VInt (x + y))
      | _ \<Rightarrow> Inl Unmodelled)"

text \<open>\<open>EachContainer.__add__\<close> (lines 875-877) on containers of integers.\<close>

definition add :: "nat \<Rightarrow> val \<Rightarrow> val \<Rightarrow> error + val" where
  "add k self other = binop int_add k self other"

section \<open>Objects\<close>

text \<open>
  Object identity matters where a collection is overwritten while it is read. A heap maps
  addresses to objects: a collection, or an each-container whose \<open>whole\<close> is the address of
  its collection. The members of a collection are values. An argument or a result is an
  object of the heap, or a value that no object of the heap shares.
\<close>

type_synonym addr = nat

datatype obj = Collection val | Container cls addr nesting

type_synonym heap = "addr \<Rightarrow> obj option"

datatype result = Object addr | Value val

text \<open>The each-container at an address, read as a value.\<close>

definition load :: "heap \<Rightarrow> addr \<Rightarrow> val option" where
  "load h a =
     (case h a of
        Some (Container c wa nst) \<Rightarrow>
          (case h wa of Some (Collection w) \<Rightarrow> Some (VEach c w nst) | _ \<Rightarrow> None)
      | _ \<Rightarrow> None)"




section \<open>Assignment: \<open>EachContainer.__setitem__\<close>\<close>

text \<open>
  \<open>w[i] = v\<close> for a built-in collection \<open>w\<close>, returning the collection after the
  assignment. A list accepts an index or a slice, a deque an index, a dict a hashable key.
\<close>

definition seq_store :: "val list \<Rightarrow> int \<Rightarrow> val \<Rightarrow> error + val list" where
  "seq_store xs i v =
     (if 0 \<le> i \<and> i < int (length xs) then Inr (xs[nat i := v])
      else if - int (length xs) \<le> i \<and> i < 0 then Inr (xs[nat (i + int (length xs)) := v])
      else Inl IndexError)"

definition slice_store ::
  "nat \<Rightarrow> val list \<Rightarrow> val \<Rightarrow> val \<Rightarrow> val \<Rightarrow> val \<Rightarrow> error + val list" where
  "slice_store k xs start stop step v =
     ebind (slice_adjust (length xs) start stop step) (\<lambda>(lo, hi, st).
     ebind (ebind (py_iter k v) drain) (\<lambda>vs.
       if st = 1 then Inr (take (nat lo) xs @ vs @ drop (nat (max lo hi)) xs)
       else ebind (slice_indices (length xs) start stop step) (\<lambda>js.
            if length vs \<noteq> length js then Inl ValueError
            else Inr (fold (\<lambda>jv ys. ys[fst jv := snd jv]) (zip js vs) xs))))"

definition builtin_setitem :: "nat \<Rightarrow> val \<Rightarrow> val \<Rightarrow> val \<Rightarrow> error + val" where
  "builtin_setitem k w i v =
     (case w of
        VList xs \<Rightarrow>
          (case i of
             VSlice a b c \<Rightarrow> ebind (slice_store k xs a b c v) (\<lambda>ys. Inr (VList ys))
           | _ \<Rightarrow> (case as_index i of
                     None \<Rightarrow> Inl TypeError
                   | Some j \<Rightarrow> ebind (seq_store xs j v) (\<lambda>ys. Inr (VList ys))))
      | VDeque xs \<Rightarrow>
          (case as_index i of
             None \<Rightarrow> Inl TypeError
           | Some j \<Rightarrow> ebind (seq_store xs j v) (\<lambda>ys. Inr (VDeque ys)))
      | VDict kvs \<Rightarrow>
          (case i of
             VEach _ _ _ \<Rightarrow> Inl Unmodelled
           | VSlice _ _ _ \<Rightarrow> Inl Unmodelled
           | _ \<Rightarrow> if hashable i then Inr (VDict (dict_set kvs i v)) else Inl TypeError)
      | VEach _ _ _ \<Rightarrow> Inl Unmodelled
      | _ \<Rightarrow> Inl TypeError)"



text \<open>
  The assignments \<open>w[index] = value\<close> for the pairs of a list, one after another: the
  collection after the last one, and the exception that ended them, if any.
\<close>

fun store_all :: "nat \<Rightarrow> val \<Rightarrow> (error + val \<times> val) list \<Rightarrow> val \<times> error option" where
  "store_all k w [] = (w, None)"
| "store_all k w (Inl e # _) = (w, Some e)"
| "store_all k w (Inr (i, v) # rest) =
     (case builtin_setitem k w i v of
        Inl e \<Rightarrow> (w, Some e)
      | Inr w' \<Rightarrow> store_all k w' rest)"




text \<open>
  The loop of lines 842-843 reads \<open>new_value\<close> while it overwrites \<open>self.whole\<close>:
  \<open>zip\<close> takes the next key, resumes the generator \<open>repeat_if_singular(new_value)\<close> for
  one value, and the value is assigned before the next one is asked for. When
  \<open>new_value\<close> is the collection itself, or an each-container over it, the generator reads
  what the earlier assignments have written.

  A dict iterator raises \<open>RuntimeError\<close> once the dict has another size than when the
  iteration began.
\<close>

definition dict_resized :: "val \<Rightarrow> val \<Rightarrow> bool" where
  "dict_resized w0 w =
     (case (w0, w) of
        (VDict kvs0, VDict kvs) \<Rightarrow> length kvs \<noteq> length kvs0
      | _ \<Rightarrow> False)"








section \<open>Assignment of attributes: \<open>EachContainer.__setattr__\<close>\<close>

text \<open>\<open>broadcast_together\<close> (lines 126-168) repeats the steps of
  \<open>BroadcastHandler.__init__\<close> and \<open>__iter__\<close>; \<open>with_matched_version_of\<close> (lines 183-187)
  calls it with \<open>match_first=True\<close>.\<close>

definition broadcast_together ::
  "nat \<Rightarrow> val list \<Rightarrow> bool \<Rightarrow> error + (error + val list) list" where
  "broadcast_together k sources match_first =
     (if sources = [] then Inr []
      else ebind (BroadcastHandler k sources match_first) (B_iter k))"

definition with_matched_version_of :: "nat \<Rightarrow> val list \<Rightarrow> error + (error + val list) list" where
  "with_matched_version_of k sources = broadcast_together k sources True"

text \<open>The loop \<open>for m, v in ...: setattr(m, attr, v)\<close> (lines 857-858). No value of this
  universe has an attribute that can be assigned, so the loop changes nothing; it ends
  with the first exception.\<close>

fun setattr_all ::
  "(val \<Rightarrow> string \<Rightarrow> val \<Rightarrow> error option) \<Rightarrow> string \<Rightarrow> (error + val list) list
     \<Rightarrow> error option" where
  "setattr_all sa attr [] = None"
| "setattr_all sa attr (Inl e # _) = Some e"
| "setattr_all sa attr (Inr [m, v] # rest) =
     (case sa m attr v of Some e \<Rightarrow> Some e | None \<Rightarrow> setattr_all sa attr rest)"
| "setattr_all sa attr (Inr _ # _) = Some ValueError"

definition each_setattr ::
  "(val \<Rightarrow> string \<Rightarrow> val \<Rightarrow> error option) \<Rightarrow> nat \<Rightarrow> val \<Rightarrow> string \<Rightarrow> val
     \<Rightarrow> error option" where
  "each_setattr sa k self attr value =
     (case with_matched_version_of k [self, value] of
        Inl e \<Rightarrow> Some e
      | Inr tuples \<Rightarrow> setattr_all sa attr tuples)"

text \<open>\<open>setattr(m, attr, v)\<close> by the type of \<open>m\<close>: the built-in values raise
  \<open>AttributeError\<close>, an each-container distributes the assignment over its members.\<close>

primrec py_setattr :: "nat \<Rightarrow> val \<Rightarrow> string \<Rightarrow> val \<Rightarrow> error option" where
  "py_setattr 0 m attr v = Some (if is_each m then RecursionError else AttributeError)"
| "py_setattr (Suc k) m attr v =
     (if is_each m then each_setattr (py_setattr k) k m attr v else Some AttributeError)"

section \<open>In-place operators\<close>

text \<open>
  The generator \<open>(s op o for s, o in B)\<close> of an in-place operator runs while the loop of
  \<open>in_place\<close> overwrites the collection of the first source: item \<open>j\<close> is computed when
  the loop asks for it. \<open>live_item\<close> is item \<open>j\<close> of the iterator of the first source when
  that source is now \<open>self_now\<close>; \<open>gen2_live\<close> is item \<open>j\<close> of the generator. The other
  source is a value and does not change.

  \<open>E.values()\<close> of a sequence-class container over a dict iterates the dict: the iterator
  raises \<open>RuntimeError\<close> once the dict has another size than when the iteration began. The
  keys of a keyed first source are looked up one by one; the assignments at these keys add
  none, so the key view they are drawn from never changes.
\<close>

definition live_item :: "nat \<Rightarrow> iterator \<Rightarrow> val \<Rightarrow> nat \<Rightarrow> (error + val) option" where
  "live_item k it self_now j =
     (case it of
        Values src \<Rightarrow>
          (if dict_resized (the_whole src) (the_whole self_now) then Some (Inl RuntimeError)
           else (let s = run k (Values self_now)
                 in if j < length s then Some (s ! j) else None))
      | Lookup _ idxs \<Rightarrow>
          (let s = run k (Lookup self_now idxs)
           in if j < length s then Some (s ! j) else None)
      | Items s \<Rightarrow> (if j < length s then Some (s ! j) else None))"

definition gen2_live ::
  "(val \<Rightarrow> val \<Rightarrow> error + val) \<Rightarrow> nat \<Rightarrow> iterator list \<Rightarrow> val \<Rightarrow> nat
     \<Rightarrow> (error + val) option" where
  "gen2_live f k its self_now j =
     (case its of
        [it_s, it_o] \<Rightarrow>
          (case live_item k it_s self_now j of
             None \<Rightarrow> None
           | Some (Inl e) \<Rightarrow> Some (Inl e)
           | Some (Inr s) \<Rightarrow>
               (if j < length (run k it_o)
                then (case run k it_o ! j of
                        Inl e \<Rightarrow> Some (Inl e)
                      | Inr o' \<Rightarrow> Some (f s o'))
                else None))
      | _ \<Rightarrow> Some (Inl ValueError))"

text \<open>The loop of lines 255-256 over the indices from position \<open>j\<close> on: the collection
  after the loop, and the exception that ended it, if any.\<close>

fun store_live ::
  "nat \<Rightarrow> (val \<Rightarrow> nat \<Rightarrow> (error + val) option) \<Rightarrow> cls \<Rightarrow> nesting \<Rightarrow> nat \<Rightarrow> val list \<Rightarrow> val
     \<Rightarrow> val \<times> error option" where
  "store_live k gen c nst j [] w = (w, None)"
| "store_live k gen c nst j (i # is) w =
     (case gen (VEach c w nst) j of
        None \<Rightarrow> (w, None)
      | Some (Inl e) \<Rightarrow> (w, Some e)
      | Some (Inr v) \<Rightarrow>
          (case builtin_setitem k w i v of
             Inl e \<Rightarrow> (w, Some e)
           | Inr w' \<Rightarrow> store_live k gen c nst (Suc j) is w'))"

text \<open>
  \<open>BroadcastHandler.in_place\<close> (lines 252-259). \<open>E\<close> is the address of the first source;
  \<open>gen\<close> is the generator item by item, \<open>it\<close> the items it yields when nothing is
  overwritten. In the second branch \<open>E.whole = ...\<close> is an attribute assignment, which
  \<open>EachContainer.__setattr__\<close> (lines 855-858) distributes over the members of \<open>E\<close>.
\<close>

definition in_place ::
  "nat \<Rightarrow> heap \<Rightarrow> addr \<Rightarrow> handler \<Rightarrow> stream \<Rightarrow> (val \<Rightarrow> nat \<Rightarrow> (error + val) option)
     \<Rightarrow> (error + addr) \<times> heap" where
  "in_place k h E B it gen =
     (case h E of
        Some (Container c wa nst) \<Rightarrow>
          (case h wa of
             Some (Collection w) \<Rightarrow>
               (if B_E B \<noteq> VEach c w nst then (Inl AttributeError, h)
                else if has_setitem w
                then (case store_live k gen c nst 0 (index_list (B_indices B)) w of
                        (w', err) \<Rightarrow>
                          ((case err of None \<Rightarrow> Inr E | Some e \<Rightarrow> Inl e),
                           h(wa \<mapsto> Collection w')))
                else (case new_each EachContainer (Gen it) (Level 1) of
                        Inl e \<Rightarrow> (Inl e, h)
                      | Inr value \<Rightarrow>
                          (case each_setattr (py_setattr k) k (VEach c w nst) ''whole'' value of
                             Some e \<Rightarrow> (Inl e, h)
                           | None \<Rightarrow> (Inr E, h))))
           | _ \<Rightarrow> (Inl Unmodelled, h))
      | _ \<Rightarrow> (Inl Unmodelled, h))"

text \<open>
  The in-place operators (lines 884-1009) all have the shape of \<open>__iadd__\<close>:
  \<open>B = BroadcastHandler(self, other, match_first=True);
   return B.in_place(s op o for s, o in B)\<close>. The result is the address returned and the
  heap after the call.
\<close>

definition inplace_op ::
  "(val \<Rightarrow> val \<Rightarrow> error + val) \<Rightarrow> nat \<Rightarrow> heap \<Rightarrow> addr \<Rightarrow> val
     \<Rightarrow> (error + addr) \<times> heap" where
  "inplace_op f k h self other =
     (case load h self of
        None \<Rightarrow> (Inl Unmodelled, h)
      | Some E \<Rightarrow>
          (case ebind (BroadcastHandler k [E, other] True) (\<lambda>B.
                ebind (B_iterators k B) (\<lambda>its. Inr (B, its))) of
             Inl e \<Rightarrow> (Inl e, h)
           | Inr (B, its) \<Rightarrow>
               in_place k h self B (gen2 f (zip_streams (map (run k) its)))
                 (gen2_live f k its)))"

definition iadd :: "nat \<Rightarrow> heap \<Rightarrow> addr \<Rightarrow> val \<Rightarrow> (error + addr) \<times> heap" where
  "iadd k h self other = inplace_op int_add k h self other"

text \<open>The statement \<open>x += other\<close>: \<open>x\<close> is bound to what \<open>__iadd__\<close> returns; an
  exception leaves the binding as it was.\<close>

definition aug_add :: "nat \<Rightarrow> heap \<Rightarrow> addr \<Rightarrow> val \<Rightarrow> addr \<times> heap \<times> error option" where
  "aug_add k h x other =
     (case iadd k h x other of
        (Inr x', h') \<Rightarrow> (x', h', None)
      | (Inl e, h') \<Rightarrow> (x, h', Some e))"

text \<open>\<open>E[item]\<close> for the each-container at address \<open>E\<close>: the object returned is \<open>E\<close>
  itself or another value. The heap is only read.\<close>

definition getitem_at :: "nat \<Rightarrow> heap \<Rightarrow> addr \<Rightarrow> val \<Rightarrow> error + result" where
  "getitem_at k h E item =
     (case load h E of
        None \<Rightarrow> Inl Unmodelled
      | Some self \<Rightarrow>
          (case k of
             0 \<Rightarrow> Inl RecursionError
           | Suc k' \<Rightarrow>
               ebind (getitem_result (py_getitem k') (py_iter k') self item)
                 (\<lambda>r. Inr (case r of None \<Rightarrow> Object E | Some v \<Rightarrow> Value v))))"

text \<open>Two collections with the same slots (positions or keys), whatever they hold.\<close>

fun same_slots :: "val \<Rightarrow> val \<Rightarrow> bool" where
  "same_slots (VList xs) w' = (case w' of VList ys \<Rightarrow> length ys = length xs | _ \<Rightarrow> False)"
| "same_slots (VDeque xs) w' = (case w' of VDeque ys \<Rightarrow> length ys = length xs | _ \<Rightarrow> False)"
| "same_slots (VDict kvs) w' = (case w' of VDict kvs' \<Rightarrow> map fst kvs' = map fst kvs | _ \<Rightarrow> False)"
| "same_slots w w' = (w' = w)"

text \<open>An index that names a slot of a collection: an integer for a list or a deque, a
  present key for a dict.\<close>

definition slot_of :: "val \<Rightarrow> val \<Rightarrow> bool" where
  "slot_of w i =
     (case w of
        VList xs \<Rightarrow> as_index i \<noteq> None
      | VDeque xs \<Rightarrow> as_index i \<noteq> None
      | VDict kvs \<Rightarrow> py_key i \<in> py_key ` set (map fst kvs)
      | _ \<Rightarrow> True)"

text \<open>The positions \<open>0 .. n-1\<close> written through a sequence-class container are slots of its
  collection: always, unless the collection is a dict, whose keys are what they are.\<close>

definition positions_are_slots :: "cls \<Rightarrow> val \<Rightarrow> bool" where
  "positions_are_slots c w =
     (case (c, w) of
        (EachContainer, VDict kvs) \<Rightarrow>
          list_all (\<lambda>i. slot_of w (VInt (int i))) [0..<length kvs]
      | _ \<Rightarrow> True)"

section \<open>Distributed membership tests\<close>

text \<open>
  \<open>contains\<close> and \<open>is_in\<close> (lines 601-638). \<open>items\<close> is the tuple of the arguments;
  \<open>mem x c\<close> is what Python evaluates for \<open>x in c\<close> on two members; \<open>k\<close> bounds the
  depth of the calls.
\<close>

definition unpack_single :: "val list \<Rightarrow> val" where
  "unpack_single items =
     (case items of
        [x] \<Rightarrow> if is_iterable x \<and> \<not> is_str x then x else VTuple items
      | _ \<Rightarrow> VTuple items)"

fun contains :: "(val \<Rightarrow> val \<Rightarrow> error + bool) \<Rightarrow> nat \<Rightarrow> val \<Rightarrow> val list \<Rightarrow> error + val"
  and is_in :: "(val \<Rightarrow> val \<Rightarrow> error + bool) \<Rightarrow> nat \<Rightarrow> val \<Rightarrow> val list \<Rightarrow> error + val"
where
  "contains mem 0 self items = Inl RecursionError"
| "contains mem (Suc k) self items =
     ebind (BroadcastHandler k [self, unpack_single items] False) (\<lambda>B.
     ebind (B_iter k B) (\<lambda>tuples.
     B_call B (gen2 (\<lambda>s i. if is_each s then contains mem k s [i]
                            else if is_each i then is_in mem k i [s]
                            else ebind (mem i s) (\<lambda>b. Inr (VBool b))) tuples)))"
| "is_in mem 0 self containers = Inl RecursionError"
| "is_in mem (Suc k) self containers =
     ebind (BroadcastHandler k [self, unpack_single containers] False) (\<lambda>B.
     ebind (B_iter k B) (\<lambda>tuples.
     B_call B (gen2 (\<lambda>s c. if is_each s then is_in mem k s [c]
                            else if is_each c then contains mem k c [s]
                            else ebind (mem s c) (\<lambda>b. Inr (VBool b))) tuples)))"

text \<open>\<open>x in c\<close> for a string \<open>c\<close> (substring test) and for a list or tuple \<open>c\<close> of
  scalars; other operands are not modelled.\<close>

fun is_prefix :: "string \<Rightarrow> string \<Rightarrow> bool" where
  "is_prefix [] ys = True"
| "is_prefix (x # xs) [] = False"
| "is_prefix (x # xs) (y # ys) = (x = y \<and> is_prefix xs ys)"

fun is_substring :: "string \<Rightarrow> string \<Rightarrow> bool" where
  "is_substring xs [] = (xs = [])"
| "is_substring xs (y # ys) = (is_prefix xs (y # ys) \<or> is_substring xs ys)"

definition py_in :: "val \<Rightarrow> val \<Rightarrow> error + bool" where
  "py_in x c =
     (case c of
        VStr s \<Rightarrow> (case x of VStr t \<Rightarrow> Inr (is_substring t s) | _ \<Rightarrow> Inl TypeError)
      | VList xs \<Rightarrow>
          (if is_scalar x \<and> list_all is_scalar xs then Inr (py_key x \<in> set (map py_key xs))
           else Inl Unmodelled)
      | VTuple xs \<Rightarrow>
          (if is_scalar x \<and> list_all is_scalar xs then Inr (py_key x \<in> set (map py_key xs))
           else Inl Unmodelled)
      | _ \<Rightarrow> Inl Unmodelled)"

text \<open>The members of a built-in sequence, by position.\<close>

fun positional :: "val \<Rightarrow> val list option" where
  "positional (VList xs) = Some xs"
| "positional (VTuple xs) = Some xs"
| "positional (VDeque xs) = Some xs"
| "positional _ = None"

text \<open>A flat sequence container: class \<open>EachContainer\<close> over a list, tuple or deque,
  without nesting, none of whose members is an each-container; the result is its members.\<close>

fun flat_seq :: "val \<Rightarrow> val list option" where
  "flat_seq (VEach EachContainer w n) =
     (if nested_gt1 n then None
      else (case positional w of
              None \<Rightarrow> None
            | Some xs \<Rightarrow> if list_all (\<lambda>x. \<not> is_each x) xs then Some xs else None))"
| "flat_seq _ = None"

text \<open>What a flat sequence container contributes to an alignment of length \<open>n\<close>: its only
  member repeated, or its members.\<close>

definition spread :: "nat \<Rightarrow> val list \<Rightarrow> val list" where
  "spread n xs = (if length xs = 1 then replicate n (hd xs) else xs)"

section \<open>The spec's \<open>argsort\<close>\<close>

text \<open>\<open>argsort(L)\<close>: the positions of \<open>L\<close> in the order that sorts \<open>L\<close>; for a permutation
  of \<open>0..n-1\<close>, the inverse permutation. It is a notion of the spec, not of the module.\<close>

definition argsort :: "nat list \<Rightarrow> nat list" where
  "argsort L = map snd (sort_key fst (zip L [0..<length L]))"

text \<open>A list of positions as a Python list of integers.\<close>

definition index_selector :: "nat list \<Rightarrow> val" where
  "index_selector L = VList (map (\<lambda>i. VInt (int i)) L)"

section \<open>Dispatch on built-in values\<close>

lemma py_getitem_builtin [simp]:
  "\<not> is_each v \<Longrightarrow> py_getitem k v i = builtin_getitem v i"
  by (cases k) auto

lemma py_iter_builtin [simp]:
  "\<not> is_each v \<Longrightarrow>
     py_iter k v = (case builtin_iter v of None \<Rightarrow> Inl TypeError | Some xs \<Rightarrow> Inr (map Inr xs))"
  by (cases k) auto

lemma each_getitem_scalar:
  "is_scalar i \<Longrightarrow> c \<noteq> EachSet \<Longrightarrow> each_getitem gi itr (VEach c w n) i = gi w i"
  by (cases i)
     (auto simp: each_getitem_def getitem_result_def getitem_domain_def ebind_def Let_def
           split: sum.splits)

lemma py_len_iter: "py_len w = Inr n \<Longrightarrow> \<exists>s. py_iter k w = Inr s"
  by (cases k; cases w) auto

lemma each_values_ok:
  "py_len w = Inr n \<Longrightarrow> \<exists>s. each_values (py_iter k) (VEach EachContainer w nst) = Inr s"
  using py_len_iter[of w n k] by auto

lemma flatten_flat:
  "list_all (\<lambda>x. \<not> is_each x) xs \<Longrightarrow> flatten itr (map Inr xs) = map Inr xs"
  by (induction xs) auto

section \<open>Alignment\<close>

text \<open>
  C1, as the code has it: two sources, neither a string (a string is a scalar and is
  broadcast), neither broadcastable, the second not keyed and with fewer members than the
  first. The first source is the model, keyed or not, whether or not \<open>match_first\<close> is
  set. Every alignment of the two raises \<open>ValueError\<close> before it yields anything:
  \<open>BroadcastHandler\<close> followed by \<open>__iter__\<close>, \<open>broadcast_together\<close>, a binary operator
  \<open>f\<close>, and an in-place operator, which leaves the heap as it was.
\<close>

theorem shorter_source_raises:
  assumes "\<not> is_str self" "\<not> is_str other"
    and "py_len self = Inr n" "py_len other = Inr m"
    and "non_broadcastable self" "non_broadcastable other" "\<not> is_mapping other"
    and "m < n"
  shows "ebind (BroadcastHandler k [self, other] match_first) (B_iter k) = Inl ValueError
       \<and> broadcast_together k [self, other] match_first = Inl ValueError
       \<and> binop f k self other = Inl ValueError
       \<and> (load h E = Some self \<longrightarrow> inplace_op f k h E other = (Inl ValueError, h))"
proof -
  have m1: "m \<noteq> 1" using assms by (auto simp: non_broadcastable_def)
  have norm: "as_sized_iterable k self = Inr self" "as_sized_iterable k other = Inr other"
    using assms by (simp_all add: as_sized_iterable_def)
  have B: "BroadcastHandler k [self, other] mf =
      Inr \<lparr>B_sources = [self, other], B_E = self, B_model = self, B_n = n, B_indices = Range n\<rparr>"
    for mf
    using assms m1 by (simp add: BroadcastHandler_def norm ebind_def Let_def)
  obtain s where s: "broadcast_to_indices k self n (Range n) = Inr s"
  proof (cases "is_mapping self")
    case True
    then show ?thesis using that by (simp add: broadcast_to_indices_def)
  next
    case nm: False
    with assms have n1: "n \<noteq> 1" by (auto simp: non_broadcastable_def)
    show ?thesis
    proof (cases "is_each self")
      case True
      then obtain c w nst where e: "self = VEach c w nst" by (cases self) auto
      with nm have c: "c = EachContainer" by (cases c) auto
      from e assms have "py_len w = Inr n" by simp
      from each_values_ok[OF this, of k nst] obtain s where
        "each_values (py_iter k) (VEach EachContainer w nst) = Inr s" by blast
      then show ?thesis using that assms e c n1 by (simp add: broadcast_to_indices_def ebind_def)
    next
      case False
      from py_len_iter[OF assms(3), of k] obtain s where "py_iter k self = Inr s" by blast
      then show ?thesis using that assms False nm n1
        by (simp add: broadcast_to_indices_def ebind_def)
    qed
  qed
  have o: "broadcast_to_indices k other n (Range n) = Inl ValueError"
    using assms m1 by (simp add: broadcast_to_indices_def ebind_def)
  have its: "B_iterators k \<lparr>B_sources = [self, other], B_E = self, B_model = self, B_n = n,
                             B_indices = Range n\<rparr> = Inl ValueError"
    by (simp add: B_iterators_def s o)
  have a: "ebind (BroadcastHandler k [self, other] mf) (B_iter k) = Inl ValueError" for mf
    by (simp add: B ebind_def B_iter_def its)
  have c: "binop f k self other = Inl ValueError"
    by (simp add: binop_def B ebind_def B_iter_def its)
  have d: "inplace_op f k h E other = (Inl ValueError, h)" if "load h E = Some self"
    using that by (simp add: inplace_op_def B ebind_def its)
  from a c d show ?thesis by (simp add: broadcast_together_def)
qed

theorem shorter_source_raises_witness:
  "add 3 (VEach EachMapping (VDict [(VStr ''x'', VInt 1), (VStr ''y'', VInt 2), (VStr ''z'', VInt 3)])
            (Level 1))
         (VTuple [VInt 1, VInt 2]) = Inl ValueError
   \<and> iadd 3 [0 \<mapsto> Container EachContainer 1 (Level 1),
             1 \<mapsto> Collection (VList [VInt 1, VInt 2, VInt 3])] 0 (VTuple [VInt 1, VInt 2])
       = (Inl ValueError, [0 \<mapsto> Container EachContainer 1 (Level 1),
                           1 \<mapsto> Collection (VList [VInt 1, VInt 2, VInt 3])])"
proof -
  let ?A = "VEach EachMapping (VDict [(VStr ''x'', VInt 1), (VStr ''y'', VInt 2), (VStr ''z'', VInt 3)])
            (Level 1)"
  let ?h = "[0 \<mapsto> Container EachContainer 1 (Level 1),
             1 \<mapsto> Collection (VList [VInt 1, VInt 2, VInt 3])] :: heap"
  let ?E = "VEach EachContainer (VList [VInt 1, VInt 2, VInt 3]) (Level 1)"
  have l: "load ?h 0 = Some ?E" by (simp add: load_def)
  have x: "binop int_add 3 ?A (VTuple [VInt 1, VInt 2]) = Inl ValueError"
    using shorter_source_raises [of ?A "VTuple [VInt 1, VInt 2]" 3 2 3 False int_add ?h 0]
    by (simp add: non_broadcastable_def)
  have y: "inplace_op int_add 3 ?h 0 (VTuple [VInt 1, VInt 2]) = (Inl ValueError, ?h)"
    using shorter_source_raises [of ?E "VTuple [VInt 1, VInt 2]" 3 2 3 True int_add ?h 0] l
    by (simp add: non_broadcastable_def)
  from x y show ?thesis by (simp add: add_def iadd_def)
qed

text \<open>
  C1 as stated fails when the shorter source comes first: \<open>each(1, 2) + (1, 2, 3)\<close> has two
  sources of cardinality 2 and 3, neither broadcastable, and returns \<open>each(2, 4)\<close>.
\<close>

theorem longer_second_source_counterexample:
  "non_broadcastable (VEach EachContainer (VList [VInt 1, VInt 2]) (Level 1))
   \<and> non_broadcastable (VTuple [VInt 1, VInt 2, VInt 3])
   \<and> py_len (VEach EachContainer (VList [VInt 1, VInt 2]) (Level 1)) = Inr 2
   \<and> py_len (VTuple [VInt 1, VInt 2, VInt 3]) = Inr 3
   \<and> add 3 (VEach EachContainer (VList [VInt 1, VInt 2]) (Level 1))
            (VTuple [VInt 1, VInt 2, VInt 3])
        = Inr (VEach EachContainer (VList [VInt 2, VInt 4]) (Level 1))"
  by code_simp

text \<open>
  A keyed second source is looked up at the positions of the model, whatever its length:
  \<open>each(1, 2, 3) + {0: 10, 1: 20}\<close> raises \<open>KeyError\<close>, and
  \<open>each(1, 2) + {0: 10, 1: 20, 2: 30}\<close> is \<open>each(11, 22)\<close>.
\<close>

lemma keyed_second_source_example:
  "add 3 (VEach EachContainer (VList [VInt 1, VInt 2, VInt 3]) (Level 1))
         (VDict [(VInt 0, VInt 10), (VInt 1, VInt 20)]) = Inl KeyError
   \<and> add 3 (VEach EachContainer (VList [VInt 1, VInt 2]) (Level 1))
           (VDict [(VInt 0, VInt 10), (VInt 1, VInt 20), (VInt 2, VInt 30)])
       = Inr (VEach EachContainer (VList [VInt 11, VInt 22]) (Level 1))"
  by code_simp

text \<open>
  C5: for \<open>A = {x: 1, y: 2}\<close> and \<open>B = {x: 10, y: 20}\<close>, \<open>each(A) + each(B)\<close> is the keyed
  container \<open>{x: 11, y: 22}\<close>, at any recursion depth that allows one method call.
\<close>

theorem keyed_sum:
  "add (Suc k)
     (VEach EachMapping (VDict [(VStr ''x'', VInt 1), (VStr ''y'', VInt 2)]) (Level 1))
     (VEach EachMapping (VDict [(VStr ''x'', VInt 10), (VStr ''y'', VInt 20)]) (Level 1))
   = Inr (VEach EachMapping (VDict [(VStr ''x'', VInt 11), (VStr ''y'', VInt 22)]) (Level 1))"
  by (simp add: add_def binop_def BroadcastHandler_def as_sized_iterable_def ebind_def
      non_broadcastable_def B_iter_def B_iterators_def broadcast_to_indices_def each_getitem_scalar
      builtin_getitem_def dict_getitem_def zip_streams_def B_call_def
      dict_of_def int_add_def Let_def)

section \<open>The result builder\<close>

lemma B_call_nested:
  "B_call B it = Inr r \<Longrightarrow> \<exists>c w. r = VEach c w (Level 1)"
  by (auto simp: B_call_def ebind_def split: indices.splits sum.splits if_splits)

text \<open>
  C10: whatever \<open>BroadcastHandler.__call__\<close> returns, and so whatever a binary, comparison
  or unary operator returns, is an each-container with \<open>_each_nested = 1\<close>, whatever the
  nesting of the operands and whatever the per-member operation.
\<close>

theorem result_nested_is_one:
  assumes "binop f k self other = Inr r \<or> unop g k self = Inr r \<or> B_call B it = Inr r"
  shows "\<exists>c w. r = VEach c w (Level 1)"
  using assms
  by (auto simp: binop_def unop_def ebind_def split: sum.splits dest: B_call_nested)

theorem result_nested_is_one_witness:
  "binop (add 2) 3
     (VEach EachContainer (VList [VList [VInt 1, VInt 2], VList [VInt 3]]) (Level 2)) (VInt 5)
   = Inr (VEach EachContainer
            (VList [VEach EachContainer (VList [VInt 6, VInt 7]) (Level 1),
                    VEach EachContainer (VList [VInt 8]) (Level 1)]) (Level 1))
   \<and> (\<exists>c w. VEach EachContainer
            (VList [VEach EachContainer (VList [VInt 6, VInt 7]) (Level 1),
                    VEach EachContainer (VList [VInt 8]) (Level 1)]) (Level 1)
          = VEach c w (Level 1))"
proof -
  have h: "binop (add 2) 3
     (VEach EachContainer (VList [VList [VInt 1, VInt 2], VList [VInt 3]]) (Level 2)) (VInt 5)
   = Inr (VEach EachContainer
            (VList [VEach EachContainer (VList [VInt 6, VInt 7]) (Level 1),
                    VEach EachContainer (VList [VInt 8]) (Level 1)]) (Level 1))"
    by code_simp
  from h result_nested_is_one [of "add 2" 3 _ "VInt 5", OF disjI1, OF h]
  show ?thesis by blast
qed

section \<open>Indexing\<close>

text \<open>
  C7: for the each-container at address \<open>E\<close>, \<open>E[:]\<close> returns the object \<open>E\<close> itself;
  as a value, the result is the container as it was, with the same class, \<open>whole\<close> and
  nesting. The heap is only read.
\<close>

theorem identity_slice_returns_self:
  assumes "load h E = Some self"
  shows "getitem_at (Suc k) h E (VSlice VNone VNone VNone) = Inr (Object E)
         \<and> py_getitem (Suc k) self (VSlice VNone VNone VNone) = Inr self"
proof -
  from assms obtain c w n where s: "self = VEach c w n"
    by (auto simp: load_def split: option.splits obj.splits)
  have "getitem_result (py_getitem k) (py_iter k) self (VSlice VNone VNone VNone) = Inr None"
    by (simp add: getitem_result_def s)
  then show ?thesis using assms s
    by (simp add: getitem_at_def each_getitem_def ebind_def)
qed

theorem identity_slice_returns_self_witness:
  "load [0 \<mapsto> Container EachSet 1 Next, 1 \<mapsto> Collection (VSet [VInt 1, VInt 2])] 0
     = Some (VEach EachSet (VSet [VInt 1, VInt 2]) Next)
   \<and> getitem_at (Suc 0) [0 \<mapsto> Container EachSet 1 Next, 1 \<mapsto> Collection (VSet [VInt 1, VInt 2])]
        0 (VSlice VNone VNone VNone) = Inr (Object 0)
   \<and> py_getitem (Suc 0) (VEach EachSet (VSet [VInt 1, VInt 2]) Next) (VSlice VNone VNone VNone)
        = Inr (VEach EachSet (VSet [VInt 1, VInt 2]) Next)"
proof -
  have l: "load [0 \<mapsto> Container EachSet 1 Next, 1 \<mapsto> Collection (VSet [VInt 1, VInt 2])] 0
     = Some (VEach EachSet (VSet [VInt 1, VInt 2]) Next)"
    by (simp add: load_def)
  from l identity_slice_returns_self [OF l, of 0] show ?thesis by simp
qed

lemma deque_slice_fails:
  "builtin_getitem (VDeque xs) (VSlice a b c) = Inl TypeError"
  by (simp add: builtin_getitem_def)

text \<open>
  Line 708 adds the length to \<open>start\<close> where it should add it to \<open>stop\<close>: with a negative
  stop \<open>islice\<close> is called with that negative stop and raises \<open>ValueError\<close>, whatever the
  start and the step.
\<close>

lemma negative_stop_raises:
  assumes "b < 0"
  shows "py_getitem (Suc k) (VEach EachContainer (VDeque xs) nst) (VSlice (VInt a) (VInt b) step)
         = Inl ValueError"
proof -
  have i: "islice (py_iter k) (VDeque xs) s (VInt b) step = Inl ValueError" for s
    using assms by (auto simp: islice_def islice_arg_def split: option.splits)
  have "approx_slice (py_iter k) (VDeque xs) (VInt a) (VInt b) step = Inl ValueError"
    using assms by (simp add: approx_slice_def lt_zero_def ebind_def i)
  then show ?thesis
    by (simp add: each_getitem_def getitem_result_def getitem_domain_def slice_domain_def
        deque_slice_fails ebind_def Let_def)
qed

text \<open>A negative start with a stop that is not negative is normalised as C4 says.\<close>

lemma negative_start_normalised:
  assumes "- int (length xs) \<le> a" "a < 0" "0 \<le> b"
  shows "py_getitem (Suc k) (VEach EachContainer (VDeque xs) nst) (VSlice (VInt a) (VInt b) step)
         = py_getitem (Suc k) (VEach EachContainer (VDeque xs) nst)
             (VSlice (VInt (a + int (length xs))) (VInt b) step)"
  using assms
  by (simp add: each_getitem_def getitem_result_def getitem_domain_def slice_domain_def
      deque_slice_fails ebind_def Let_def approx_slice_def lt_zero_def)

text \<open>
  C4 at \<open>E = each(deque([10, 20, 30, 40]))\<close>: \<open>E[1:-1]\<close> raises \<open>ValueError\<close>, while the
  slice with the stop normalised, \<open>E[1:3]\<close>, selects \<open>20, 30\<close>.
\<close>

theorem negative_stop_example:
  "py_getitem 3 (VEach EachContainer (VDeque [VInt 10, VInt 20, VInt 30, VInt 40]) (Level 1))
      (VSlice (VInt 1) (VInt (- 1)) VNone) = Inl ValueError
   \<and> py_getitem 3 (VEach EachContainer (VDeque [VInt 10, VInt 20, VInt 30, VInt 40]) (Level 1))
      (VSlice (VInt 1) (VInt (- 1 + 4)) VNone)
     = Inr (VEach EachContainer (VList [VInt 20, VInt 30]) (Level 1))"
  by code_simp

lemma argsort_inverse:
  assumes d: "distinct L" and s: "set L = {0..<length L}"
  shows "length (argsort L) = length L"
    and "\<And>i. i < length L \<Longrightarrow> argsort L ! i < length L \<and> L ! (argsort L ! i) = i"
proof -
  define n where "n = length L"
  define zs where "zs = zip L [0..<n]"
  define ss where "ss = sort_key fst zs"
  have mz: "map fst zs = L" by (simp add: zs_def n_def)
  have lz: "length ss = n" by (simp add: ss_def zs_def n_def)
  have dz: "distinct zs" using d mz by (metis distinct_zipI1 zs_def)
  have inj: "inj_on fst (set zs)" using d mz by (metis distinct_map)
  have "distinct (map fst ss)"
    unfolding ss_def by (simp add: distinct_map dz inj)
  moreover have "sorted (map fst ss)" unfolding ss_def by (rule sorted_sort_key)
  moreover have "set (map fst ss) = {0..<n}"
  proof -
    have "set (map fst ss) = fst ` set zs" by (simp add: ss_def)
    also have "\<dots> = set (map fst zs)" by simp
    finally show ?thesis using s mz n_def by simp
  qed
  ultimately have ys: "map fst ss = [0..<n]"
    by (intro sorted_distinct_set_unique) auto
  show "length (argsort L) = length L"
    by (simp add: argsort_def n_def[symmetric] zs_def[symmetric] ss_def[symmetric] lz)
  fix i assume i: "i < length L"
  then have i': "i < n" by (simp add: n_def)
  have "ss ! i \<in> set zs" using i' lz by (metis nth_mem set_sort ss_def)
  then obtain j where j: "j < n" "zs ! j = ss ! i" using zs_def
    by (metis in_set_conv_nth length_zip length_upt min.idem diff_zero n_def)
  have zj: "zs ! j = (L ! j, j)" using j(1) by (simp add: zs_def n_def)
  have "fst (ss ! i) = i" using ys i' lz by (metis nth_map nth_upt add_0)
  with j zj have "L ! j = i" "snd (ss ! i) = j" by (metis fst_conv, metis snd_conv)
  moreover have "argsort L ! i = snd (ss ! i)"
    using i' lz by (simp add: argsort_def n_def[symmetric] zs_def[symmetric] ss_def[symmetric])
  ultimately show "argsort L ! i < length L \<and> L ! (argsort L ! i) = i"
    using j(1) n_def by simp
qed

lemma gmap_index_list:
  assumes "positional w = Some xs" "\<forall>i \<in> set L. i < length xs"
  shows "gmap (py_getitem k w) (map Inr (map (\<lambda>i. VInt (int i)) L))
         = map Inr (map (\<lambda>i. xs ! i) L)"
  using assms(2)
proof (induction L)
  case Nil
  then show ?case by simp
next
  case (Cons a L)
  have "py_getitem k w (VInt (int a)) = Inr (xs ! a)"
    using assms(1) Cons.prems
    by (cases w) (auto simp: builtin_getitem_def seq_index_def)
  with Cons show ?case by simp
qed

lemma drain_map_Inr [simp]: "drain (map Inr xs) = Inr xs"
  by (induction xs) auto

lemma drain_map_Inr_comp [simp]: "drain (map (Inr \<circ> f) xs) = Inr (map f xs)"
  by (induction xs) auto

lemma rekey:
  assumes "positional w = Some xs" "\<forall>i \<in> set L. i < length xs"
  shows "py_getitem (Suc k) (VEach EachContainer w nst) (index_selector L)
         = Inr (VEach EachContainer (VList (map (\<lambda>i. xs ! i) L)) nst)"
proof (cases L)
  case Nil
  have lw: "py_len w = Inr (length xs)" and iw: "builtin_iter w = Some xs" and nm: "\<not> is_mapping w" "\<not> is_each w"
    using assms(1) by (cases w; auto)+
  show ?thesis
    using Nil lw iw nm
    by (cases xs)
       (auto simp: index_selector_def each_getitem_def getitem_result_def getitem_domain_def
        iterable_domain_def ebind_def Let_def new_each_def)
next
  case (Cons a L')
  have lw: "py_len w = Inr (length xs)" and nm: "\<not> is_mapping w" "\<not> is_each w"
    using assms(1) by (cases w; auto)+
  have g: "gmap (py_getitem k w) (map Inr (map (\<lambda>i. VInt (int i)) L))
         = map Inr (map (\<lambda>i. xs ! i) L)"
    using gmap_index_list[OF assms] .
  have dom: "iterable_domain (py_getitem k) (py_iter k) (VEach EachContainer w nst) (index_selector L)
        = Inr (Gen (map Inr (map (\<lambda>i. xs ! i) L)), EachContainer)"
    using lw nm g Cons
    by (simp add: index_selector_def iterable_domain_def ebind_def)
  show ?thesis
    using dom
    by (simp add: each_getitem_def getitem_result_def getitem_domain_def index_selector_def
        ebind_def Let_def new_each_def)
qed

text \<open>
  C6: for a sequence container over a list, tuple or deque with members \<open>xs\<close> and an
  index list \<open>L\<close> that is a permutation of the positions of \<open>xs\<close>, \<open>E[L]\<close> returns a
  container \<open>E'\<close> and \<open>E'[argsort(L)]\<close> returns the members \<open>xs\<close> in their positions
  (in a list, with the nesting of \<open>E\<close>).
\<close>

theorem rekey_roundtrip:
  assumes "positional w = Some xs" and "distinct L" and "set L = {0..<length xs}"
  shows "\<exists>E'. py_getitem (Suc k) (VEach EachContainer w nst) (index_selector L) = Inr E'
          \<and> py_getitem (Suc k) E' (index_selector (argsort L))
              = Inr (VEach EachContainer (VList xs) nst)"
proof -
  have len: "length L = length xs"
    using assms(2,3) by (metis card_atLeastLessThan diff_zero distinct_card)
  have s: "set L = {0..<length L}" using assms(3) len by simp
  let ?ys = "map (\<lambda>i. xs ! i) L"
  have inr: "\<forall>i \<in> set L. i < length xs" using assms(3) by auto
  have 1: "py_getitem (Suc k) (VEach EachContainer w nst) (index_selector L)
         = Inr (VEach EachContainer (VList ?ys) nst)"
    by (rule rekey[OF assms(1) inr])
  have al: "length (argsort L) = length L" by (rule argsort_inverse(1)[OF assms(2) s])
  have ai: "\<And>i. i < length L \<Longrightarrow> argsort L ! i < length L \<and> L ! (argsort L ! i) = i"
    by (rule argsort_inverse(2)[OF assms(2) s])
  have inr2: "\<forall>j \<in> set (argsort L). j < length ?ys"
    using al ai by (auto simp: in_set_conv_nth)
  have 2: "py_getitem (Suc k) (VEach EachContainer (VList ?ys) nst) (index_selector (argsort L))
         = Inr (VEach EachContainer (VList (map (\<lambda>j. ?ys ! j) (argsort L))) nst)"
    by (rule rekey[OF _ inr2]) simp
  have "map (\<lambda>j. ?ys ! j) (argsort L) = xs"
    by (rule nth_equalityI) (use al ai len in auto)
  with 1 2 show ?thesis by simp
qed

theorem rekey_roundtrip_witness:
  "positional (VTuple [VStr ''a'', VStr ''b'', VStr ''c'']) = Some [VStr ''a'', VStr ''b'', VStr ''c'']
   \<and> distinct [2, 0, 1 :: nat]
   \<and> set [2, 0, 1 :: nat] = {0..<length [VStr ''a'', VStr ''b'', VStr ''c'']}
   \<and> (\<exists>E'. py_getitem (Suc 0) (VEach EachContainer (VTuple [VStr ''a'', VStr ''b'', VStr ''c''])
                  (Level 1)) (index_selector [2, 0, 1]) = Inr E'
          \<and> py_getitem (Suc 0) E' (index_selector (argsort [2, 0, 1]))
              = Inr (VEach EachContainer (VList [VStr ''a'', VStr ''b'', VStr ''c'']) (Level 1)))"
proof -
  have p: "positional (VTuple [VStr ''a'', VStr ''b'', VStr ''c''])
             = Some [VStr ''a'', VStr ''b'', VStr ''c'']" by simp
  have d: "distinct [2, 0, 1 :: nat]" by simp
  have s: "set [2, 0, 1 :: nat] = {0..<length [VStr ''a'', VStr ''b'', VStr ''c'']}"
    by auto
  from p d s rekey_roundtrip [OF p d s, of 0 "Level 1"] show ?thesis by blast
qed

section \<open>Assignment\<close>



















section \<open>In-place operators\<close>

lemma same_slots_refl [simp]: "same_slots w w"
  by (cases w) auto

lemma same_slots_trans: "same_slots a b \<Longrightarrow> same_slots b c \<Longrightarrow> same_slots a c"
  by (cases a; cases b; cases c) auto

lemma dict_set_existing:
  "py_key i \<in> py_key ` set (map fst kvs) \<Longrightarrow> map fst (dict_set kvs i v) = map fst kvs"
proof (induction kvs)
  case Nil
  then show ?case by simp
next
  case (Cons kv kvs)
  obtain k' v' where kv: "kv = (k', v')" by (cases kv)
  show ?case
  proof (cases "py_key k' = py_key i")
    case True
    then show ?thesis by (simp add: kv)
  next
    case False
    with Cons.prems kv have "py_key i \<in> py_key ` set (map fst kvs)" by auto
    with Cons.IH False kv show ?thesis by simp
  qed
qed

lemma slot_of_same_slots: "same_slots w w' \<Longrightarrow> slot_of w i \<Longrightarrow> slot_of w' i"
  by (cases w; cases w') (auto simp: slot_of_def)

lemma builtin_setitem_slot:
  assumes "slot_of w i" "builtin_setitem k w i v = Inr w'"
  shows "same_slots w w'"
proof (cases w)
  case (VList xs)
  with assms obtain j where j: "as_index i = Some j" by (auto simp: slot_of_def)
  then have "\<not> is_slice i" by (cases i) auto
  with assms VList j show ?thesis
    by (cases i) (auto simp: builtin_setitem_def seq_store_def ebind_def split: if_splits)
next
  case (VDeque xs)
  with assms obtain j where j: "as_index i = Some j" by (auto simp: slot_of_def)
  with assms VDeque show ?thesis
    by (auto simp: builtin_setitem_def seq_store_def ebind_def split: if_splits)
next
  case (VDict kvs)
  with assms have "py_key i \<in> py_key ` set (map fst kvs)" by (simp add: slot_of_def)
  from dict_set_existing[OF this] have m: "map fst (dict_set kvs i v) = map fst kvs" .
  from assms(2) VDict have "w' = VDict (dict_set kvs i v)"
    by (cases i) (auto simp: builtin_setitem_def split: if_splits)
  with m VDict show ?thesis by simp
qed (use assms in \<open>auto simp: builtin_setitem_def\<close>)

lemma store_all_same_slots:
  "\<forall>i v. Inr (i, v) \<in> set pairs \<longrightarrow> slot_of w0 i \<Longrightarrow> same_slots w0 w \<Longrightarrow>
     same_slots w0 (fst (store_all k w pairs))"
proof (induction pairs arbitrary: w)
  case Nil
  then show ?case by simp
next
  case (Cons p pairs)
  have rest: "\<forall>i v. Inr (i, v) \<in> set pairs \<longrightarrow> slot_of w0 i" using Cons.prems(1) by auto
  show ?case
  proof (cases p)
    case (Inl e)
    with Cons show ?thesis by simp
  next
    case (Inr iv)
    obtain i v where iv: "iv = (i, v)" by (cases iv)
    show ?thesis
    proof (cases "builtin_setitem k w i v")
      case (Inl e)
      with Cons Inr iv show ?thesis by simp
    next
      case r: (Inr w')
      have "slot_of w0 i" using Cons.prems(1) Inr iv by auto
      then have "slot_of w i" using Cons.prems(2) slot_of_same_slots by blast
      from builtin_setitem_slot[OF this r] Cons.prems(2)
      have "same_slots w0 w'" by (rule same_slots_trans[rotated])
      from Cons.IH[OF rest this] Inr iv r show ?thesis by simp
    qed
  qed
qed


lemma store_live_same_slots:
  assumes step: "\<And>j w v. same_slots w0 w \<Longrightarrow> j < length idxs \<Longrightarrow>
                   gen (VEach c w nst) j = Some (Inr v) \<Longrightarrow> slot_of w (idxs ! j)"
  shows "same_slots w0 w \<Longrightarrow> rest = drop j idxs \<Longrightarrow>
           same_slots w0 (fst (store_live k gen c nst j rest w))"
proof (induction rest arbitrary: j w)
  case Nil
  then show ?case by simp
next
  case (Cons i rest)
  from Cons.prems(2) have j: "j < length idxs"
    by (metis drop_all linorder_not_less list.distinct(1))
  from Cons.prems(2) j have i: "idxs ! j = i" and r: "rest = drop (Suc j) idxs"
    by (metis Cons_nth_drop_Suc list.inject)+
  show ?case
  proof (cases "gen (VEach c w nst) j")
    case None
    with Cons.prems(1) show ?thesis by simp
  next
    case (Some x)
    show ?thesis
    proof (cases x)
      case (Inl e)
      with Some Cons.prems(1) show ?thesis by simp
    next
      case (Inr v)
      show ?thesis
      proof (cases "builtin_setitem k w i v")
        case (Inl e)
        with Some Inr Cons.prems(1) show ?thesis by simp
      next
        case w': (Inr w')
        from step[OF Cons.prems(1) j] Some Inr i have "slot_of w i" by simp
        from builtin_setitem_slot[OF this w'] Cons.prems(1)
        have "same_slots w0 w'" by (rule same_slots_trans[rotated])
        from Cons.IH[OF this r] Some Inr w' show ?thesis by simp
      qed
    qed
  qed
qed

lemma handler_shape:
  assumes "BroadcastHandler k [self, other] True = Inr B"
  shows "\<exists>s0 o0. B_sources B = [s0, o0] \<and> as_sized_iterable k self = Inr s0 \<and> B_E B = s0
           \<and> py_len s0 = Inr (B_n B)
           \<and> (B_indices B = Range (B_n B)
               \<or> (is_mapping s0 \<and> (\<exists>ks. mapping_keys s0 = Inr ks \<and> B_indices B = Keys ks)))"
  using assms
  by (auto simp: BroadcastHandler_def ebind_def split: sum.splits if_splits)

lemma dict_read_present:
  assumes "py_getitem k (VEach EachMapping (VDict kvs) nst) (VInt j) = Inr s"
  shows "py_key (VInt j) \<in> py_key ` set (map fst kvs)"
proof (cases k)
  case 0
  with assms show ?thesis by simp
next
  case (Suc k')
  with assms have "dict_getitem kvs (VInt j) = Inr s"
    by (simp add: each_getitem_scalar builtin_getitem_def)
  then have "map_of (map (\<lambda>kv. (py_key (fst kv), snd kv)) kvs) (py_key (VInt j)) = Some s"
    by (auto simp: dict_getitem_def split: option.splits)
  from map_of_SomeD[OF this] show ?thesis by force
qed

lemma set_read_fails:
  "py_getitem k (VEach EachSet (VDict kvs) nst) (VInt j) \<noteq> Inr s"
  by (cases k) (auto simp: each_getitem_def getitem_result_def ebind_def)

lemma gen2_live_read:
  assumes "gen2_live f k (Lookup src idxs # its) self_now j = Some (Inr v)"
  shows "j < length idxs \<and> (\<exists>s. py_getitem k self_now (idxs ! j) = Inr s)"
  using assms
  by (auto simp: gen2_live_def live_item_def Let_def
           split: list.splits option.splits sum.splits if_splits)

lemma written_slots:
  assumes hs: "has_setitem w0"
    and wf: "positions_are_slots c w0"
    and B: "BroadcastHandler k [VEach c w0 nst, other] True = Inr B"
    and its: "B_iterators k B = Inr its"
    and ss: "same_slots w0 w"
    and j: "j < length (index_list (B_indices B))"
    and g: "gen2_live f k its (VEach c w nst) j = Some (Inr v)"
  shows "slot_of w (index_list (B_indices B) ! j)"
proof -
  let ?self = "VEach c w0 nst"
  let ?idxs = "index_list (B_indices B)"
  from handler_shape[OF B] obtain s0 o0 where
    src: "B_sources B = [s0, o0]" and s0: "as_sized_iterable k ?self = Inr s0"
    and ind: "B_indices B = Range (B_n B)
               \<or> (is_mapping s0 \<and> (\<exists>ks. mapping_keys s0 = Inr ks \<and> B_indices B = Keys ks))"
    by blast
  show ?thesis
  proof (cases w0)
    case (VList xs)
    then have "s0 = ?self" using s0 by (simp add: as_sized_iterable_def)
    with ind VList have "B_indices B = Range (B_n B)" by (cases c) auto
    with j ss VList show ?thesis by (cases w) (auto simp: slot_of_def)
  next
    case (VDeque xs)
    then have "s0 = ?self" using s0 by (simp add: as_sized_iterable_def)
    with ind VDeque have "B_indices B = Range (B_n B)" by (cases c) auto
    with j ss VDeque show ?thesis by (cases w) (auto simp: slot_of_def)
  next
    case (VDict kvs0)
    with ss obtain kvs where w: "w = VDict kvs" "map fst kvs = map fst kvs0"
      by (cases w) auto
    from VDict have s0': "s0 = ?self" using s0 by (simp add: as_sized_iterable_def)
    show ?thesis
    proof (cases "c = EachContainer")
      case True
      with ind s0' have r: "B_indices B = Range (B_n B)" by auto
      from handler_shape[OF B] s0 s0' VDict have n: "B_n B = length kvs0" by auto
      from j r n have jn: "j < length kvs0" and ij: "?idxs ! j = VInt (int j)" by simp_all
      from wf True VDict jn have "slot_of w0 (VInt (int j))"
        by (simp add: positions_are_slots_def list_all_iff)
      with ss ij show ?thesis using slot_of_same_slots by metis
    next
      case False
      then have cm: "c = EachMapping \<or> c = EachSet" by (cases c) auto
      from ind show ?thesis
      proof
        assume r: "B_indices B = Range (B_n B)"
        from its src cm s0' VDict obtain its' where
          "its = Lookup ?self ?idxs # its'"
          by (auto simp: B_iterators_def broadcast_to_indices_def split: sum.splits)
        with g gen2_live_read obtain s where
          rd: "py_getitem k (VEach c w nst) (?idxs ! j) = Inr s" by blast
        from j r have ij: "?idxs ! j = VInt (int j)" by simp
        from cm show ?thesis
        proof
          assume "c = EachMapping"
          with rd ij w have "py_key (VInt (int j)) \<in> py_key ` set (map fst kvs)"
            using dict_read_present by metis
          with ij w show ?thesis by (simp add: slot_of_def)
        next
          assume "c = EachSet"
          with rd ij w set_read_fails show ?thesis by auto
        qed
      next
        assume "is_mapping s0 \<and> (\<exists>ks. mapping_keys s0 = Inr ks \<and> B_indices B = Keys ks)"
        then obtain ks where ks: "mapping_keys s0 = Inr ks" "B_indices B = Keys ks" by blast
        with s0' VDict cm have "ks = map fst kvs0" by auto
        with j ks w show ?thesis
          by (simp add: slot_of_def)
      qed
    qed
  next
    case (VEach c' w' n')
    with ss show ?thesis by (simp add: slot_of_def)
  qed (use hs in auto)
qed

text \<open>
  C8, as the code has it: let \<open>E\<close> be the address of an each-container whose collection,
  at address \<open>wa\<close>, supports item assignment. Whatever an in-place operator (\<open>x += 1\<close> with
  \<open>x = E\<close>) does, it returns \<open>E\<close> itself unless it raises; the container object is
  unchanged and still refers to the collection at \<open>wa\<close>; no other object changes. When the
  positions written are slots of the collection (they are, unless a sequence-class
  container stands over a dict without these keys), the collection at \<open>wa\<close> has the slots
  it had (the positions of a list or deque, the keys of a dict), holding the new values.
\<close>

theorem in_place_keeps_identity:
  assumes hE: "h E = Some (Container c wa nst)" and hw: "h wa = Some (Collection w)"
    and hs: "has_setitem w"
    and op: "inplace_op f k h E other = (r, h')"
  shows "(r = Inr E \<or> (\<exists>e. r = Inl e))
       \<and> h' E = h E
       \<and> (\<forall>b. b \<noteq> wa \<longrightarrow> h' b = h b)
       \<and> (\<exists>w'. h' wa = Some (Collection w')
                \<and> (positions_are_slots c w \<longrightarrow> same_slots w w'))"
proof -
  let ?self = "VEach c w nst"
  have ne: "E \<noteq> wa" using hE hw by auto
  have ld: "load h E = Some ?self" using hE hw by (simp add: load_def)
  show ?thesis
  proof (cases "BroadcastHandler k [?self, other] True")
    case (Inl e)
    with op ld hw show ?thesis by (auto simp: inplace_op_def ebind_def)
  next
    case B: (Inr B)
    show ?thesis
    proof (cases "B_iterators k B")
      case (Inl e)
      with op ld hw B show ?thesis by (auto simp: inplace_op_def ebind_def)
    next
      case T: (Inr its)
      show ?thesis
      proof (cases "B_E B = ?self")
        case False
        with op ld B T hE hw show ?thesis
          by (auto simp: inplace_op_def ebind_def in_place_def)
      next
        case True
        let ?gen = "gen2_live f k its"
        let ?idxs = "index_list (B_indices B)"
        obtain w' err where st: "store_live k ?gen c nst 0 ?idxs w = (w', err)"
          by (cases "store_live k ?gen c nst 0 ?idxs w")
        from op ld B T hE hw hs st True
        have r: "r = (case err of None \<Rightarrow> Inr E | Some e \<Rightarrow> Inl e)"
          and h': "h' = h(wa \<mapsto> Collection w')"
          by (auto simp: inplace_op_def ebind_def in_place_def)
        have "same_slots w w'" if wf: "positions_are_slots c w"
        proof -
          have "same_slots w (fst (store_live k ?gen c nst 0 ?idxs w))"
            by (rule store_live_same_slots[where idxs="?idxs"])
               (use written_slots[OF hs wf B T] in auto)
          with st show ?thesis by simp
        qed
        with r h' ne show ?thesis by (auto split: option.splits)
      qed
    qed
  qed
qed

theorem in_place_keeps_identity_witness:
  "has_setitem (VDict [(VInt 1, VInt 0), (VInt 0, VInt 0)])
   \<and> positions_are_slots EachContainer (VDict [(VInt 1, VInt 0), (VInt 0, VInt 0)])
   \<and> fst (iadd 2 [0 \<mapsto> Container EachContainer 1 (Level 1),
                  1 \<mapsto> Collection (VDict [(VInt 1, VInt 0), (VInt 0, VInt 0)])] 0 (VInt 1))
      = Inr 0
   \<and> snd (iadd 2 [0 \<mapsto> Container EachContainer 1 (Level 1),
                  1 \<mapsto> Collection (VDict [(VInt 1, VInt 0), (VInt 0, VInt 0)])] 0 (VInt 1)) 0
      = Some (Container EachContainer 1 (Level 1))
   \<and> snd (iadd 2 [0 \<mapsto> Container EachContainer 1 (Level 1),
                  1 \<mapsto> Collection (VDict [(VInt 1, VInt 0), (VInt 0, VInt 0)])] 0 (VInt 1)) 1
      = Some (Collection (VDict [(VInt 1, VInt 1), (VInt 0, VInt 2)]))
   \<and> same_slots (VDict [(VInt 1, VInt 0), (VInt 0, VInt 0)])
                  (VDict [(VInt 1, VInt 1), (VInt 0, VInt 2)])"
proof -
  let ?w = "VDict [(VInt 1, VInt 0), (VInt 0, VInt 0)]"
  let ?h = "[0 \<mapsto> Container EachContainer 1 (Level 1), 1 \<mapsto> Collection ?w] :: heap"
  have a: "?h 0 = Some (Container EachContainer 1 (Level 1))" by simp
  have b: "?h 1 = Some (Collection ?w)" by simp
  have c: "has_setitem ?w" by simp
  have p: "positions_are_slots EachContainer ?w" by code_simp
  have d: "inplace_op int_add 2 ?h 0 (VInt 1)
             = (fst (iadd 2 ?h 0 (VInt 1)), snd (iadd 2 ?h 0 (VInt 1)))"
    by (simp add: iadd_def)
  have e: "fst (iadd 2 ?h 0 (VInt 1)) = Inr 0" by code_simp
  have f: "snd (iadd 2 ?h 0 (VInt 1)) 1
             = Some (Collection (VDict [(VInt 1, VInt 1), (VInt 0, VInt 2)]))"
    by code_simp
  from in_place_keeps_identity [OF a b c d] p c e f show ?thesis by auto
qed

text \<open>
  C8 as stated fails for a sequence-class container over a dict whose keys are not the
  positions: \<open>E = EachContainer({5: 0, 7: 0}); x = E; x += 1\<close>. The dict supports item
  assignment. The first assignment, \<open>E.whole[0] = 5 + 1\<close>, adds the key \<open>0\<close>; the iterator of
  the dict then raises \<open>RuntimeError\<close>, and the collection is left with three keys.
\<close>

theorem dict_backed_sequence_counterexample:
  "([0 \<mapsto> Container EachContainer 1 (Level 1),
     1 \<mapsto> Collection (VDict [(VInt 5, VInt 0), (VInt 7, VInt 0)])] :: heap) 0
      = Some (Container EachContainer 1 (Level 1))
   \<and> has_setitem (VDict [(VInt 5, VInt 0), (VInt 7, VInt 0)])
   \<and> fst (iadd 3 [0 \<mapsto> Container EachContainer 1 (Level 1),
                  1 \<mapsto> Collection (VDict [(VInt 5, VInt 0), (VInt 7, VInt 0)])] 0 (VInt 1))
      = Inl RuntimeError
   \<and> snd (iadd 3 [0 \<mapsto> Container EachContainer 1 (Level 1),
                  1 \<mapsto> Collection (VDict [(VInt 5, VInt 0), (VInt 7, VInt 0)])] 0 (VInt 1)) 1
      = Some (Collection (VDict [(VInt 5, VInt 0), (VInt 7, VInt 0), (VInt 0, VInt 6)]))
   \<and> \<not> same_slots (VDict [(VInt 5, VInt 0), (VInt 7, VInt 0)])
                    (VDict [(VInt 5, VInt 0), (VInt 7, VInt 0), (VInt 0, VInt 6)])"
  by code_simp

text \<open>
  When the collection does not support item assignment, line 258 assigns \<open>E.whole\<close>
  through \<open>EachContainer.__setattr__\<close>, which sets the attribute \<open>whole\<close> on the members
  of \<open>E\<close> instead: the collection of \<open>E\<close> is never replaced.
\<close>

lemma unassignable_whole_is_kept:
  assumes "h E = Some (Container c wa nst)" "h wa = Some (Collection w)" "\<not> has_setitem w"
  shows "snd (inplace_op f k h E other) = h"
  using assms
  by (auto simp: inplace_op_def in_place_def load_def ebind_def
           split: sum.splits option.splits prod.splits)

text \<open>
  C3 at \<open>E = each((1, 2, 3))\<close>, a container over a tuple: \<open>E += 1\<close> raises
  \<open>AttributeError\<close> (the integer \<open>1\<close> has no attribute \<open>whole\<close>) and \<open>E.whole\<close> is still
  \<open>(1, 2, 3)\<close>, where \<open>E + 1\<close> builds \<open>each(2, 3, 4)\<close>.
\<close>

theorem tuple_iadd_example:
  "fst (iadd 3 [0 \<mapsto> Container EachContainer 1 (Level 1),
                1 \<mapsto> Collection (VTuple [VInt 1, VInt 2, VInt 3])] 0 (VInt 1))
     = Inl AttributeError
   \<and> snd (iadd 3 [0 \<mapsto> Container EachContainer 1 (Level 1),
                1 \<mapsto> Collection (VTuple [VInt 1, VInt 2, VInt 3])] 0 (VInt 1)) 1
     = Some (Collection (VTuple [VInt 1, VInt 2, VInt 3]))
   \<and> add 3 (VEach EachContainer (VTuple [VInt 1, VInt 2, VInt 3]) (Level 1)) (VInt 1)
     = Inr (VEach EachContainer (VList [VInt 2, VInt 3, VInt 4]) (Level 1))"
  by code_simp

section \<open>Distributed membership tests\<close>

lemma zip_upto_clean:
  "m \<ge> length xs \<Longrightarrow> zip_upto m [map Inr xs, map Inr ys] = map (\<lambda>xy. Inr [fst xy, snd xy]) (zip xs ys)"
proof (induction xs arbitrary: m ys)
  case Nil
  then show ?case by (cases m) auto
next
  case (Cons x xs)
  then obtain m' where m: "m = Suc m'" "m' \<ge> length xs" by (cases m) auto
  show ?case
  proof (cases ys)
    case Nil
    then show ?thesis using m by simp
  next
    case (Cons y ys')
    with m Cons.IH[of m' ys'] show ?thesis by simp
  qed
qed

lemma zip_streams_clean:
  "zip_streams [map Inr xs, map Inr ys] = map (\<lambda>xy. Inr [fst xy, snd xy]) (zip xs ys)"
  by (simp add: zip_streams_def zip_upto_clean)

lemma gen2_swap:
  assumes "\<And>x y. x \<in> set xs \<Longrightarrow> y \<in> set ys \<Longrightarrow> F x y = G y x"
  shows "gen2 F (map (\<lambda>xy. Inr [fst xy, snd xy]) (zip xs ys))
       = gen2 G (map (\<lambda>xy. Inr [fst xy, snd xy]) (zip ys xs))"
  using assms
proof (induction xs arbitrary: ys)
  case Nil
  then show ?case by simp
next
  case (Cons x xs)
  show ?case
  proof (cases ys)
    case Nil
    then show ?thesis by simp
  next
    case (Cons y ys')
    have "F x y = G y x" using Cons.prems Cons by simp
    moreover have "gen2 F (map (\<lambda>xy. Inr [fst xy, snd xy]) (zip xs ys'))
       = gen2 G (map (\<lambda>xy. Inr [fst xy, snd xy]) (zip ys' xs))"
      using Cons.IH Cons.prems Cons by simp
    ultimately show ?thesis using Cons by (simp split: sum.splits)
  qed
qed

lemma flat_seq_cases:
  assumes "flat_seq A = Some xs"
  obtains w n where "A = VEach EachContainer w n" "\<not> nested_gt1 n" "positional w = Some xs"
    "list_all (\<lambda>x. \<not> is_each x) xs"
  using assms
  by (cases A rule: flat_seq.cases) (auto split: if_splits option.splits)

lemma positional_facts:
  assumes "positional w = Some xs"
  shows "py_len w = Inr (length xs)" "builtin_iter w = Some xs" "\<not> is_each w" "\<not> is_mapping w"
  using assms by (cases w; auto)+

text \<open>
  A second positional source longer than the model is cut to the model's length: no
  exception is raised for the surplus members.
\<close>

lemma longer_source_is_cut:
  assumes "positional w = Some xs" "2 \<le> length xs" "length xs < length ys"
  shows "binop f k (VEach EachContainer w nst) (VTuple ys)
       = binop f k (VEach EachContainer w nst) (VTuple (take (length xs) ys))"
proof -
  let ?self = "VEach EachContainer w nst"
  let ?n = "length xs"
  note pf = positional_facts[OF assms(1)]
  have ls: "py_len ?self = Inr ?n" using pf by simp
  have norm: "as_sized_iterable k ?self = Inr ?self"
             "as_sized_iterable k (VTuple zs) = Inr (VTuple zs)" for zs
    using ls by (simp_all add: as_sized_iterable_def)
  have nb: "non_broadcastable ?self" using ls assms(2) by (simp add: non_broadcastable_def)
  have B: "BroadcastHandler k [?self, VTuple zs] False =
      Inr \<lparr>B_sources = [?self, VTuple zs], B_E = ?self, B_model = ?self, B_n = ?n,
           B_indices = Range ?n\<rparr>" for zs
    using nb ls by (simp add: BroadcastHandler_def norm ebind_def Let_def)
  obtain s where s: "each_values (py_iter k) ?self = Inr s" "length s = ?n"
    using pf by (auto split: if_splits)
  have bs: "broadcast_to_indices k ?self ?n (Range ?n) = Inr (Values ?self)"
    using ls assms(2) s by (simp add: broadcast_to_indices_def ebind_def)
  have bo: "broadcast_to_indices k (VTuple zs) ?n (Range ?n) = Inr (Items (map Inr zs))"
    if "length zs \<noteq> 1" "length zs \<ge> ?n" for zs
    using that by (simp add: broadcast_to_indices_def ebind_def)
  have cut: "zip_upto m [s', map Inr zs] = zip_upto m [s', map Inr (take m zs)]" for m s' zs
  proof (induction m arbitrary: s' zs)
    case 0
    then show ?case by simp
  next
    case (Suc m)
    show ?case
    proof (cases s' rule: drain.cases)
      case (3 v rest)
      then show ?thesis using Suc[of rest "tl zs"] by (cases zs) auto
    qed auto
  qed
  have l1: "length ys \<noteq> 1" "length ys \<ge> ?n" using assms by auto
  have l2: "length (take ?n ys) \<noteq> 1" "length (take ?n ys) \<ge> ?n" using assms by auto
  show ?thesis
    using cut[of ?n s ys] s
    by (simp add: binop_def B ebind_def B_iter_def B_iterators_def bs bo[OF l1] bo[OF l2]
        zip_streams_def B_call_def)
qed

lemma flat_facts:
  assumes "flat_seq A = Some xs"
  shows "py_len A = Inr (length xs)" "\<not> is_str A" "\<not> is_mapping A" "is_each A"
    "as_sized_iterable k A = Inr A"
    "non_broadcastable A = (length xs \<noteq> 1)"
    "each_values (py_iter k) A = Inr (map Inr xs)"
    "py_iter (Suc k) A = Inr (map Inr xs)"
    "py_iter 0 A = Inr [Inl RecursionError]"
proof -
  from assms obtain w n where A: "A = VEach EachContainer w n" "\<not> nested_gt1 n"
    "positional w = Some xs" "list_all (\<lambda>x. \<not> is_each x) xs"
    by (rule flat_seq_cases)
  note pf = positional_facts[OF A(3)]
  show "py_len A = Inr (length xs)" "\<not> is_str A" "\<not> is_mapping A" "is_each A"
    using A pf by auto
  then show "as_sized_iterable k A = Inr A" "non_broadcastable A = (length xs \<noteq> 1)"
    by (auto simp: as_sized_iterable_def non_broadcastable_def)
  show ev: "each_values (py_iter k) A = Inr (map Inr xs)"
    using A pf by simp
  show "py_iter (Suc k) A = Inr (map Inr xs)"
    using A ev flatten_flat[OF A(4)] by (simp add: each_iter_def)
  show "py_iter 0 A = Inr [Inl RecursionError]" using A by simp
qed

lemma flat_broadcast:
  assumes "flat_seq A = Some xs" "length xs = 1 \<or> length xs = n"
  shows "broadcast_to_indices k A n (Range n)
       = (if k = 0 \<and> length xs = 1 then Inl RecursionError
          else Inr (if length xs = 1 then Items (replicate n (Inr (hd xs))) else Values A))"
proof (cases "length xs = 1")
  case True
  then obtain x where x: "xs = [x]" by (cases xs) auto
  show ?thesis
  proof (cases k)
    case 0
    with True flat_facts[OF assms(1)] show ?thesis
      by (simp add: broadcast_to_indices_def ebind_def first_item_def)
  next
    case (Suc k')
    with True x flat_facts[OF assms(1)] show ?thesis
      by (simp add: broadcast_to_indices_def ebind_def first_item_def)
  qed
next
  case False
  with assms flat_facts[OF assms(1)] show ?thesis
    by (simp add: broadcast_to_indices_def ebind_def)
qed

lemma flat_run:
  assumes "flat_seq A = Some xs"
  shows "run k (if length xs = 1 then Items (replicate n (Inr (hd xs))) else Values A)
       = map Inr (spread n xs)"
  using flat_facts(7)[OF assms]
  by (simp add: spread_def map_replicate)

lemma flat_rows:
  assumes A: "flat_seq A = Some xs" and B: "flat_seq B = Some ys"
    and cond: "length xs = length ys \<or> length xs = 1 \<or> length ys = 1"
    and n: "n = (if length xs \<noteq> 1 then length xs else length ys)"
  shows "ebind (BroadcastHandler k [A, B] False)
           (\<lambda>H. ebind (B_iter k H) (\<lambda>t. B_call H (gen2 F t)))
   = (if k = 0 \<and> (length xs = 1 \<or> length ys = 1) then Inl RecursionError
      else ebind (drain (gen2 F (map (\<lambda>xy. Inr [fst xy, snd xy])
                                   (zip (spread n xs) (spread n ys)))))
             (\<lambda>vs. Inr (VEach EachContainer (VList vs) (Level 1))))"
proof -
  note fa = flat_facts[OF A] and fb = flat_facts[OF B]
  define M where "M = (if length xs \<noteq> 1 then A else if length ys \<noteq> 1 then B else A)"
  have fnd: "(case find non_broadcastable [A, B] of None \<Rightarrow> A | Some s \<Rightarrow> s) = M"
    using fa(6) fb(6) by (simp add: M_def)
  have lm: "py_len M = Inr n" and mm: "\<not> is_mapping M"
    using fa fb n by (auto simp: M_def)
  have H: "BroadcastHandler k [A, B] False
     = Inr \<lparr>B_sources = [A, B], B_E = A, B_model = M, B_n = n, B_indices = Range n\<rparr>"
    using fa(5) fb(5) fnd lm mm by (simp add: BroadcastHandler_def ebind_def)
  have ca: "length xs = 1 \<or> length xs = n" and cb: "length ys = 1 \<or> length ys = n"
    using cond n by auto
  define itA where "itA = (if length xs = 1 then Items (replicate n (Inr (hd xs))) else Values A)"
  define itB where "itB = (if length ys = 1 then Items (replicate n (Inr (hd ys))) else Values B)"
  have ba: "broadcast_to_indices k' A n (Range n)
       = (if k' = 0 \<and> length xs = 1 then Inl RecursionError else Inr itA)" for k'
    unfolding itA_def by (rule flat_broadcast[OF A ca])
  have bb: "broadcast_to_indices k' B n (Range n)
       = (if k' = 0 \<and> length ys = 1 then Inl RecursionError else Inr itB)" for k'
    unfolding itB_def by (rule flat_broadcast[OF B cb])
  have ra: "run k' itA = map Inr (spread n xs)" for k'
    unfolding itA_def by (rule flat_run[OF A])
  have rb: "run k' itB = map Inr (spread n ys)" for k'
    unfolding itB_def by (rule flat_run[OF B])
  show ?thesis
    using fa(4)
    by (simp add: H ebind_def B_iter_def B_iterators_def ba bb ra rb zip_streams_clean
        B_call_def)
qed


text \<open>
  With sequences of two and three members the two calls differ as well:
  \<open>each('abc', 'xyz').contains(each('a', 'x', 'q'))\<close> returns two booleans, and
  \<open>each('a', 'x', 'q').is_in(each('abc', 'xyz'))\<close> raises \<open>ValueError\<close>.
\<close>

lemma membership_length_example:
  "contains py_in 3 (VEach EachContainer (VList [VStr ''abc'', VStr ''xyz'']) (Level 1))
        [VEach EachContainer (VList [VStr ''a'', VStr ''x'', VStr ''q'']) (Level 1)]
     = Inr (VEach EachContainer (VList [VBool True, VBool True]) (Level 1))
   \<and> is_in py_in 3 (VEach EachContainer (VList [VStr ''a'', VStr ''x'', VStr ''q'']) (Level 1))
        [VEach EachContainer (VList [VStr ''abc'', VStr ''xyz'']) (Level 1)]
     = Inl ValueError"
  by code_simp

text \<open>
  Where the two calls do agree: for flat sequence containers \<open>A\<close> and \<open>B\<close> (over a list,
  tuple or deque, without nesting, no member an each-container) of the same cardinality,
  or one of them of cardinality 1, \<open>A.contains(B)\<close> and \<open>B.is_in(A)\<close> have the same outcome:
  the same container of booleans, or the same exception, whatever the membership test
  \<open>mem\<close> on the members is.
\<close>

lemma flat_membership_duality:
  assumes A: "flat_seq A = Some xs" and B: "flat_seq B = Some ys"
    and cond: "length xs = length ys \<or> length xs = 1 \<or> length ys = 1"
  shows "contains mem (Suc k) A [B] = is_in mem (Suc k) B [A]"
proof -
  note fa = flat_facts[OF A] and fb = flat_facts[OF B]
  define n where "n = (if length xs \<noteq> 1 then length xs else length ys)"
  have n': "n = (if length ys \<noteq> 1 then length ys else length xs)"
    using cond by (auto simp: n_def)
  have cond': "length ys = length xs \<or> length ys = 1 \<or> length xs = 1" using cond by auto
  let ?F = "\<lambda>s i. if is_each s then contains mem k s [i]
                   else if is_each i then is_in mem k i [s]
                   else ebind (mem i s) (\<lambda>b. Inr (VBool b))"
  let ?G = "\<lambda>s c. if is_each s then is_in mem k s [c]
                   else if is_each c then contains mem k c [s]
                   else ebind (mem s c) (\<lambda>b. Inr (VBool b))"
  have ua: "unpack_single [A] = A"
    using fa(2,4) by (cases A) (auto simp: unpack_single_def)
  have ub: "unpack_single [B] = B"
    using fb(2,4) by (cases B) (auto simp: unpack_single_def)
  have ne: "\<And>x. x \<in> set (spread n xs) \<Longrightarrow> \<not> is_each x"
           "\<And>y. y \<in> set (spread n ys) \<Longrightarrow> \<not> is_each y"
  proof -
    from A obtain w m where "list_all (\<lambda>x. \<not> is_each x) xs" by (rule flat_seq_cases)
    then show "\<And>x. x \<in> set (spread n xs) \<Longrightarrow> \<not> is_each x"
      by (cases xs) (auto simp: spread_def list_all_iff split: if_splits)
    from B obtain w m where "list_all (\<lambda>x. \<not> is_each x) ys" by (rule flat_seq_cases)
    then show "\<And>y. y \<in> set (spread n ys) \<Longrightarrow> \<not> is_each y"
      by (cases ys) (auto simp: spread_def list_all_iff split: if_splits)
  qed
  have sw: "gen2 ?F (map (\<lambda>xy. Inr [fst xy, snd xy]) (zip (spread n xs) (spread n ys)))
          = gen2 ?G (map (\<lambda>xy. Inr [fst xy, snd xy]) (zip (spread n ys) (spread n xs)))"
    by (rule gen2_swap) (use ne in auto)
  have "contains mem (Suc k) A [B]
      = ebind (BroadcastHandler k [A, B] False)
           (\<lambda>H. ebind (B_iter k H) (\<lambda>t. B_call H (gen2 ?F t)))"
    by (simp add: ub)
  also have "\<dots> = (if k = 0 \<and> (length xs = 1 \<or> length ys = 1) then Inl RecursionError
      else ebind (drain (gen2 ?F (map (\<lambda>xy. Inr [fst xy, snd xy])
                                   (zip (spread n xs) (spread n ys)))))
             (\<lambda>vs. Inr (VEach EachContainer (VList vs) (Level 1))))"
    by (rule flat_rows[OF A B cond n_def])
  also have "\<dots> = (if k = 0 \<and> (length ys = 1 \<or> length xs = 1) then Inl RecursionError
      else ebind (drain (gen2 ?G (map (\<lambda>xy. Inr [fst xy, snd xy])
                                   (zip (spread n ys) (spread n xs)))))
             (\<lambda>vs. Inr (VEach EachContainer (VList vs) (Level 1))))"
    using sw by auto
  also have "\<dots> = ebind (BroadcastHandler k [B, A] False)
           (\<lambda>H. ebind (B_iter k H) (\<lambda>t. B_call H (gen2 ?G t)))"
    by (rule flat_rows[OF B A cond' n', symmetric])
  also have "\<dots> = is_in mem (Suc k) B [A]"
    by (simp add: ua)
  finally show ?thesis .
qed

lemma flat_membership_duality_example:
  "contains py_in (Suc 1)
     (VEach EachContainer (VList [VStr ''abc'', VStr ''xyz'']) (Level 1))
     [VEach EachContainer (VTuple [VStr ''a'']) (Level 1)]
   = Inr (VEach EachContainer (VList [VBool True, VBool False]) (Level 1))
   \<and> is_in py_in (Suc 1)
     (VEach EachContainer (VTuple [VStr ''a'']) (Level 1))
     [VEach EachContainer (VList [VStr ''abc'', VStr ''xyz'']) (Level 1)]
   = Inr (VEach EachContainer (VList [VBool True, VBool False]) (Level 1))"
proof -
  have a: "flat_seq (VEach EachContainer (VList [VStr ''abc'', VStr ''xyz'']) (Level 1))
             = Some [VStr ''abc'', VStr ''xyz'']" by simp
  have b: "flat_seq (VEach EachContainer (VTuple [VStr ''a'']) (Level 1)) = Some [VStr ''a'']"
    by simp
  have c: "length [VStr ''abc'', VStr ''xyz''] = length [VStr ''a'']
           \<or> length [VStr ''abc'', VStr ''xyz''] = 1 \<or> length [VStr ''a''] = 1" by simp
  have d: "contains py_in (Suc 1)
     (VEach EachContainer (VList [VStr ''abc'', VStr ''xyz'']) (Level 1))
     [VEach EachContainer (VTuple [VStr ''a'']) (Level 1)]
   = Inr (VEach EachContainer (VList [VBool True, VBool False]) (Level 1))" by code_simp
  from flat_membership_duality [OF a b c, of py_in 1] d show ?thesis by simp
qed

end
